theory Spec2Isabelle
  imports Main "HOL-Library.Sublist"
begin

section \<open>Python values used by the script\<close>

text \<open>
  Exceptions the script can meet. \<open>OSError_ELOOP\<close> stands for the plain \<open>OSError\<close> raised
  when too many symbolic links are followed. \<open>JSONDecodeError\<close> and \<open>UnicodeDecodeError\<close>
  are both \<open>ValueError\<close>s, and neither is a subclass of the other; the four \<open>OSError\<close>
  subclasses are pairwise unrelated as well.
\<close>

datatype exn =
    FileNotFoundError
  | FileExistsError
  | NotADirectoryError
  | IsADirectoryError
  | PermissionError
  | OSError_ELOOP
  | JSONDecodeError
  | UnicodeDecodeError
  | RecursionError
  | TypeError
  | AttributeError
  | IndexError

text \<open>
  A parsed JSON document, as \<open>json.load\<close> returns it. An object is the dict it was
  parsed into, kept as an association list read with \<open>map_of\<close>. The payload of a number
  plays no role in the script.
\<close>

datatype json =
    JNull
  | JBool bool
  | JNum int
  | JStr string
  | JArr "json list"
  | JObj "(string \<times> json) list"

text \<open>The lines the script prints; the f-strings are kept as their arguments.\<close>

datatype logline =
    NoMatchingLayer
  | FileNotFoundAt string
  | JSONDecodeErrorIn
  | DeleteSymlink string string
  | ModelSymlinked string string

subsection \<open>\<open>str.split\<close> and \<open>str.replace\<close>\<close>

text \<open>\<open>s.split(c)\<close> with an explicit separator: the empty string gives one empty part.\<close>

fun split_on :: "char \<Rightarrow> string \<Rightarrow> string list" where
  "split_on c [] = [[]]"
| "split_on c (x # xs) =
     (if x = c then [] # split_on c xs
      else (case split_on c xs of
              [] \<Rightarrow> [[x]]
            | p # ps \<Rightarrow> (x # p) # ps))"

text \<open>
  \<open>s.replace(old, new)\<close>: every non-overlapping occurrence of \<open>old\<close>, from the left. With
  an empty \<open>old\<close> Python puts \<open>new\<close> before every character and at the end.
\<close>

function str_replace :: "string \<Rightarrow> string \<Rightarrow> string \<Rightarrow> string" where
  "str_replace old new [] = (if old = [] then new else [])"
| "str_replace old new (c # cs) =
     (if old = [] then new @ c # str_replace old new cs
      else if prefix old (c # cs) then new @ str_replace old new (drop (length old) (c # cs))
      else c # str_replace old new cs)"
  by pat_completeness auto
termination
  by (relation "measure (\<lambda>(old, new, s). length s)") auto

section \<open>Name resolver\<close>

text \<open>
  \<open>get_model_name\<close>: \<open>parts[-2] + ":" + parts[-1]\<close> of \<open>filename.split('/')\<close>. The split
  never returns an empty list, so only \<open>parts[-2]\<close> can be out of range.
\<close>

definition get_model_name :: "string \<Rightarrow> exn + string" where
  "get_model_name filename =
     (let parts = split_on CHR ''/'' filename
      in if length parts < 2 then Inl IndexError
         else Inr (parts ! (length parts - 2) @ '':'' @ parts ! (length parts - 1)))"

section \<open>Blob resolver: the part after \<open>json.load\<close>\<close>

definition model_media_type :: string where
  "model_media_type = ''application/vnd.ollama.image.model''"

text \<open>
  \<open>x.get(key, default)\<close> exists on a dict only; on any other JSON value the attribute
  lookup raises \<open>AttributeError\<close>. Python's \<open>None\<close>, the default of \<open>get\<close>, is what
  JSON \<open>null\<close> parses to, so it is \<open>JNull\<close> here.
\<close>

definition dict_get :: "json \<Rightarrow> string \<Rightarrow> json \<Rightarrow> exn + json" where
  "dict_get x key dflt =
     (case x of
        JObj kvs \<Rightarrow> (case map_of kvs key of None \<Rightarrow> Inr dflt | Some v \<Rightarrow> Inr v)
      | _ \<Rightarrow> Inl AttributeError)"

text \<open>
  What \<open>for layer in layers\<close> iterates over: the items of a list, the keys of a dict, the
  characters of a string; anything else is not iterable.
\<close>

definition py_iter :: "json \<Rightarrow> exn + json list" where
  "py_iter x =
     (case x of
        JArr xs \<Rightarrow> Inr xs
      | JObj kvs \<Rightarrow> Inr (map (\<lambda>kv. JStr (fst kv)) kvs)
      | JStr s \<Rightarrow> Inr (map (\<lambda>c. JStr [c]) s)
      | _ \<Rightarrow> Inl TypeError)"

text \<open>\<open>layer.get('digest', '').replace('sha256:', 'sha256-')\<close>: only a string has \<open>replace\<close>.\<close>

definition digest_filename :: "json \<Rightarrow> exn + string" where
  "digest_filename layer =
     (case dict_get layer ''digest'' (JStr []) of
        Inl e \<Rightarrow> Inl e
      | Inr (JStr d) \<Rightarrow> Inr (str_replace ''sha256:'' ''sha256-'' d)
      | Inr _ \<Rightarrow> Inl AttributeError)"

text \<open>
  The loop over the layers: it returns at the first layer whose \<open>mediaType\<close> is the model
  media type; \<open>None\<close> is falling out of the loop.
\<close>

fun scan_layers :: "json list \<Rightarrow> exn + string option" where
  "scan_layers [] = Inr None"
| "scan_layers (layer # rest) =
     (case dict_get layer ''mediaType'' JNull of
        Inl e \<Rightarrow> Inl e
      | Inr mt \<Rightarrow>
          if mt = JStr model_media_type
          then (case digest_filename layer of Inl e \<Rightarrow> Inl e | Inr d \<Rightarrow> Inr (Some d))
          else scan_layers rest)"

text \<open>The body of the \<open>try\<close> once the document is parsed.\<close>

definition blob_of_json :: "json \<Rightarrow> (exn + string option) \<times> logline list" where
  "blob_of_json data =
     (case dict_get data ''layers'' (JArr []) of
        Inl e \<Rightarrow> (Inl e, [])
      | Inr layers \<Rightarrow>
          (case py_iter layers of
             Inl e \<Rightarrow> (Inl e, [])
           | Inr ls \<Rightarrow>
               (case scan_layers ls of
                  Inl e \<Rightarrow> (Inl e, [])
                | Inr (Some d) \<Rightarrow> (Inr (Some d), [])
                | Inr None \<Rightarrow> (Inr None, [NoMatchingLayer]))))"

section \<open>The file system\<close>

text \<open>
  The file system is what \<open>lstat\<close> answers for each path string: a regular file, a
  symbolic link with its stored target, or a directory. The list order is the order in
  which a directory scan reports the entries.

  A regular file carries what \<open>open(path, 'r')\<close> followed by \<open>json.load\<close> does with it:
  \<^item> \<open>Parsed\<close>: the text is a JSON document, and this is its value;
  \<^item> \<open>Malformed\<close>: the bytes decode as text, the text is not JSON (\<open>JSONDecodeError\<close>);
  \<^item> \<open>Undecodable\<close>: the bytes do not decode as text (\<open>UnicodeDecodeError\<close>), as for a
    blob or any other binary file;
  \<^item> \<open>TooDeep\<close>: the document nests deeper than the parser recurses (\<open>RecursionError\<close>);
  \<^item> \<open>Unreadable\<close>: the user may not read the file (\<open>PermissionError\<close> from \<open>open\<close>).

  Scope of the model. A path is looked up as the string it is, so a file system holds its
  entries under the spellings the script builds (the \<open>str\<close> of a \<open>Path\<close>, and
  \<open>os.path.join\<close> of a walked directory and a name), and the text of a link is looked up
  the same way: a trailing slash, a \<open>.\<close> or \<open>..\<close> segment, or a parent that is itself a link
  is not resolved. Apart from the read permission of a regular file, permissions are left
  out: directories are taken to be searchable and writable by the user.
\<close>

datatype contents =
    Parsed json
  | Malformed
  | Undecodable
  | TooDeep
  | Unreadable

datatype node =
    RegFile contents
  | SymLink string
  | Directory

type_synonym fs = "(string \<times> node) list"

datatype errno = ENOENT | ENOTDIR | ELOOP

definition lstat :: "fs \<Rightarrow> string \<Rightarrow> node option" where
  "lstat fs p = map_of fs p"

text \<open>
  A path with no entry: \<open>ENOTDIR\<close> when one of its leading parts, cut before a slash, is
  a regular file, \<open>ENOENT\<close> otherwise.
\<close>

definition ancestors :: "string \<Rightarrow> string list" where
  "ancestors p = map (\<lambda>i. take i p) (filter (\<lambda>i. p ! i = CHR ''/'') [1..<length p])"

definition is_regular :: "fs \<Rightarrow> string \<Rightarrow> bool" where
  "is_regular fs p = (case lstat fs p of Some (RegFile c) \<Rightarrow> True | _ \<Rightarrow> False)"

definition missing_errno :: "fs \<Rightarrow> string \<Rightarrow> errno" where
  "missing_errno fs p =
     (if \<exists>a \<in> set (ancestors p). is_regular fs a then ENOTDIR else ENOENT)"

text \<open>\<open>os.path.join\<close> of two strings and \<open>os.path.dirname\<close>, as \<open>posixpath\<close> has them.\<close>

definition os_path_join :: "string \<Rightarrow> string \<Rightarrow> string" where
  "os_path_join a b =
     (if prefix ''/'' b then b
      else if a = [] \<or> last a = CHR ''/'' then a @ b
      else a @ ''/'' @ b)"

definition os_path_dirname :: "string \<Rightarrow> string" where
  "os_path_dirname p =
     (let head = rev (dropWhile (\<lambda>c. c \<noteq> CHR ''/'') (rev p))
      in if head \<noteq> [] \<and> (\<exists>c \<in> set head. c \<noteq> CHR ''/'')
         then rev (dropWhile (\<lambda>c. c = CHR ''/'') (rev head))
         else head)"

text \<open>
  \<open>stat\<close> follows symbolic links: a relative target is read from the directory of the
  link. The kernel gives up with \<open>ELOOP\<close> after 40 links.
\<close>

fun stat_follow :: "nat \<Rightarrow> fs \<Rightarrow> string \<Rightarrow> errno + node" where
  "stat_follow 0 fs p = Inl ELOOP"
| "stat_follow (Suc n) fs p =
     (case lstat fs p of
        None \<Rightarrow> Inl (missing_errno fs p)
      | Some (SymLink t) \<Rightarrow> stat_follow n fs (os_path_join (os_path_dirname p) t)
      | Some nd \<Rightarrow> Inr nd)"

definition max_symlinks :: nat where
  "max_symlinks = 40"

definition os_stat :: "fs \<Rightarrow> string \<Rightarrow> errno + node" where
  "os_stat fs p = stat_follow (Suc max_symlinks) fs p"

definition os_path_exists :: "fs \<Rightarrow> string \<Rightarrow> bool" where
  "os_path_exists fs p = (case os_stat fs p of Inr _ \<Rightarrow> True | Inl _ \<Rightarrow> False)"

definition is_dir :: "fs \<Rightarrow> string \<Rightarrow> bool" where
  "is_dir fs p = (os_stat fs p = Inr Directory)"

definition os_path_islink :: "fs \<Rightarrow> string \<Rightarrow> bool" where
  "os_path_islink fs p = (case lstat fs p of Some (SymLink _) \<Rightarrow> True | _ \<Rightarrow> False)"

definition os_unlink :: "fs \<Rightarrow> string \<Rightarrow> fs" where
  "os_unlink fs p = filter (\<lambda>e. fst e \<noteq> p) fs"

text \<open>
  \<open>os.scandir(top)\<close>: the names directly under \<open>top\<close>, each once; it raises \<open>OSError\<close>
  (here \<open>None\<close>) when \<open>top\<close> is not a directory.
\<close>

definition is_child :: "string \<Rightarrow> string \<Rightarrow> bool" where
  "is_child dirpath k =
     (let d = os_path_join dirpath []; n = drop (length d) k
      in prefix d k \<and> n \<noteq> [] \<and> CHR ''/'' \<notin> set n)"

definition child_name :: "string \<Rightarrow> string \<Rightarrow> string" where
  "child_name dirpath k = drop (length (os_path_join dirpath [])) k"

definition listdir :: "fs \<Rightarrow> string \<Rightarrow> string list" where
  "listdir fs dirpath =
     remdups (map (child_name dirpath) (filter (is_child dirpath) (map fst fs)))"

definition scandir :: "fs \<Rightarrow> string \<Rightarrow> string list option" where
  "scandir fs dirpath = (if is_dir fs dirpath then Some (listdir fs dirpath) else None)"

text \<open>
  What one round of \<open>os.walk\<close> yields for \<open>top\<close>: \<open>entry.is_dir()\<close> follows links, so a
  link to a directory is listed among the directories, every other entry among the files.
\<close>

definition walk_dirs :: "fs \<Rightarrow> string \<Rightarrow> string list \<Rightarrow> string list" where
  "walk_dirs fs dirpath names = filter (\<lambda>n. is_dir fs (os_path_join dirpath n)) names"

definition walk_files :: "fs \<Rightarrow> string \<Rightarrow> string list \<Rightarrow> string list" where
  "walk_files fs dirpath names = filter (\<lambda>n. \<not> is_dir fs (os_path_join dirpath n)) names"

text \<open>
  The directories \<open>os.walk\<close> pushes on its stack after the loop body has run for \<open>top\<close>:
  with \<open>followlinks\<close> off, those that are not links at that moment.
\<close>

definition walk_push :: "fs \<Rightarrow> string \<Rightarrow> string list \<Rightarrow> string list" where
  "walk_push fs dirpath dirs =
     filter (\<lambda>p. \<not> os_path_islink fs p) (map (os_path_join dirpath) dirs)"

section \<open>Symlink reconciler\<close>

text \<open>
  The body of the inner loop of \<open>reset_symlinks\<close> for one file name: \<open>islink\<close>,
  \<open>readlink\<close>, the prefix test on the link text, the print and \<open>unlink\<close>.
\<close>

definition reset_file ::
  "string \<Rightarrow> string \<Rightarrow> string \<Rightarrow> fs \<times> logline list \<Rightarrow> fs \<times> logline list" where
  "reset_file blobs_dir root file s =
     (let path = os_path_join root file
      in case lstat (fst s) path of
           Some (SymLink source) \<Rightarrow>
             if prefix blobs_dir source
             then (os_unlink (fst s) path, snd s @ [DeleteSymlink path source])
             else s
         | _ \<Rightarrow> s)"

subsection \<open>The walk terminates\<close>

text \<open>
  The number of keys under a directory, and its sum over the stack of \<open>os.walk\<close>: each
  round replaces a directory by sub-directories that together weigh less.
\<close>

definition weight :: "fs \<Rightarrow> string \<Rightarrow> nat" where
  "weight fs p = length (filter (prefix (os_path_join p [])) (map fst fs))"

definition stack_weight :: "fs \<Rightarrow> string list \<Rightarrow> nat" where
  "stack_weight fs stack = sum_list (map (\<lambda>p. Suc (weight fs p)) stack)"

lemma length_filter_mono:
  "(\<And>x. x \<in> set xs \<Longrightarrow> P x \<Longrightarrow> Q x) \<Longrightarrow> length (filter P xs) \<le> length (filter Q xs)"
  by (induction xs) auto

lemma sum_filter_classes:
  "distinct ns \<Longrightarrow>
   (\<Sum>n\<leftarrow>ns. length (filter (\<lambda>k. P k \<and> g k = n) ks)) \<le> length (filter P ks)"
proof (induction ks)
  case Nil
  then show ?case by simp
next
  case (Cons k ks)
  have one: "(\<Sum>n\<leftarrow>ns. if P k \<and> g k = n then 1 else 0) \<le> (if P k then 1 else (0::nat))"
    using Cons.prems by (induction ns) auto
  have "(\<Sum>n\<leftarrow>ns. length (filter (\<lambda>k. P k \<and> g k = n) (k # ks)))
        = (\<Sum>n\<leftarrow>ns. (if P k \<and> g k = n then 1 else 0) + length (filter (\<lambda>k. P k \<and> g k = n) ks))"
    by (rule arg_cong[where f = sum_list]) auto
  also have "\<dots> = (\<Sum>n\<leftarrow>ns. if P k \<and> g k = n then 1 else 0)
                  + (\<Sum>n\<leftarrow>ns. length (filter (\<lambda>k. P k \<and> g k = n) ks))"
    by (simp add: sum_list_addf)
  also have "\<dots> \<le> (if P k then 1 else 0) + length (filter P ks)"
    using one Cons.IH[OF Cons.prems] by (rule add_mono)
  also have "\<dots> = length (filter P (k # ks))"
    by simp
  finally show ?case .
qed

lemma join_child:
  "n \<noteq> [] \<Longrightarrow> CHR ''/'' \<notin> set n \<Longrightarrow> os_path_join p n = os_path_join p [] @ n"
  by (cases n) (auto simp: os_path_join_def)

lemma join_child_dir:
  assumes "n \<noteq> []" "CHR ''/'' \<notin> set n"
  shows "os_path_join (d @ n) [] = d @ n @ ''/''"
proof -
  have "last n \<in> set n" using assms(1) by simp
  then have "last n \<noteq> CHR ''/''" using assms(2) by metis
  then show ?thesis using assms(1) by (simp add: os_path_join_def)
qed

lemma is_child_iff:
  "is_child p k \<longleftrightarrow> (\<exists>n. n \<noteq> [] \<and> CHR ''/'' \<notin> set n \<and> k = os_path_join p [] @ n)"
proof
  assume c: "is_child p k"
  let ?d = "os_path_join p []"
  from c have "prefix ?d k" by (simp add: is_child_def Let_def)
  then have "k = ?d @ drop (length ?d) k" by (auto simp: prefix_def)
  with c show "\<exists>n. n \<noteq> [] \<and> CHR ''/'' \<notin> set n \<and> k = ?d @ n"
    unfolding is_child_def Let_def by blast
next
  assume "\<exists>n. n \<noteq> [] \<and> CHR ''/'' \<notin> set n \<and> k = os_path_join p [] @ n"
  then show "is_child p k" by (auto simp: is_child_def Let_def)
qed

lemma set_listdir:
  "set (listdir fs p) = {n. n \<noteq> [] \<and> CHR ''/'' \<notin> set n \<and> os_path_join p [] @ n \<in> fst ` set fs}"
  (is "?L = ?R")
proof (rule set_eqI)
  fix n
  have cn: "child_name p (os_path_join p [] @ m) = m" for m by (simp add: child_name_def)
  have L: "n \<in> ?L \<longleftrightarrow> (\<exists>k \<in> fst ` set fs. is_child p k \<and> n = child_name p k)"
    by (auto simp: listdir_def)
  show "n \<in> ?L \<longleftrightarrow> n \<in> ?R"
  proof
    assume "n \<in> ?L"
    then obtain k where k: "k \<in> fst ` set fs" "is_child p k" "n = child_name p k"
      using L by blast
    from k(2) obtain m where m: "m \<noteq> []" "CHR ''/'' \<notin> set m" "k = os_path_join p [] @ m"
      unfolding is_child_iff by blast
    with k cn show "n \<in> ?R" by simp
  next
    assume "n \<in> ?R"
    then have n: "n \<noteq> []" "CHR ''/'' \<notin> set n" "os_path_join p [] @ n \<in> fst ` set fs" by auto
    then have "is_child p (os_path_join p [] @ n)" unfolding is_child_iff by blast
    with n(3) cn show "n \<in> ?L" unfolding L by metis
  qed
qed

lemma distinct_listdir: "distinct (listdir fs p)"
  by (simp add: listdir_def)

lemma child_class:
  assumes "n \<noteq> []" "CHR ''/'' \<notin> set n" "d @ n \<in> set ks"
  shows "Suc (length (filter (prefix (d @ n @ ''/'')) ks))
         \<le> length (filter (\<lambda>k. prefix d k \<and> takeWhile (\<lambda>c. c \<noteq> CHR ''/'') (drop (length d) k) = n) ks)"
proof -
  let ?g = "\<lambda>k. takeWhile (\<lambda>c. c \<noteq> CHR ''/'') (drop (length d) k)"
  let ?Q = "\<lambda>k. prefix (d @ n @ ''/'') k \<or> k = d @ n"
  have ne: "x \<in> set n \<Longrightarrow> x \<noteq> CHR ''/''" for x using assms(2) by auto
  have g1: "?g (d @ n) = n" using ne by (simp add: takeWhile_eq_all_conv)
  have g2: "?g (d @ n @ ''/'' @ r) = n" for r
    using ne by (simp add: takeWhile_append2)
  have sub: "length (filter ?Q ks)
             \<le> length (filter (\<lambda>k. prefix d k \<and> ?g k = n) ks)"
  proof (rule length_filter_mono)
    fix k assume "?Q k"
    then consider r where "k = d @ n @ ''/'' @ r" | "k = d @ n"
      by (auto simp: prefix_def)
    then show "prefix d k \<and> ?g k = n"
    proof cases
      case 1
      then show ?thesis using g2[of r] by simp
    next
      case 2
      then show ?thesis using g1 by simp
    qed
  qed
  have "length (filter ?Q ks) = length (filter (prefix (d @ n @ ''/'')) ks) + length (filter (\<lambda>k. k = d @ n) ks)"
  proof -
    have disj: "prefix (d @ n @ ''/'') k \<Longrightarrow> k \<noteq> d @ n" for k
      by (auto dest: prefix_length_le)
    show ?thesis by (induction ks) (use disj in auto)
  qed
  moreover have "0 < length (filter (\<lambda>k. k = d @ n) ks)"
    using assms(3) by (auto simp: filter_empty_conv)
  ultimately show ?thesis using sub by linarith
qed

lemma children_weight:
  assumes "distinct ns" "\<And>n. n \<in> set ns \<Longrightarrow> n \<noteq> [] \<and> CHR ''/'' \<notin> set n \<and> d @ n \<in> set ks"
  shows "(\<Sum>n\<leftarrow>ns. Suc (length (filter (prefix (d @ n @ ''/'')) ks))) \<le> length (filter (prefix d) ks)"
proof -
  let ?g = "\<lambda>k. takeWhile (\<lambda>c. c \<noteq> CHR ''/'') (drop (length d) k)"
  have "(\<Sum>n\<leftarrow>ns. Suc (length (filter (prefix (d @ n @ ''/'')) ks)))
        \<le> (\<Sum>n\<leftarrow>ns. length (filter (\<lambda>k. prefix d k \<and> ?g k = n) ks))"
    by (rule sum_list_mono) (use assms(2) child_class in blast)
  also have "\<dots> \<le> length (filter (prefix d) ks)"
    by (rule sum_filter_classes[OF assms(1)])
  finally show ?thesis .
qed

lemma weight_unlink: "weight (os_unlink fs q) p \<le> weight fs p"
proof -
  have "map fst (filter (\<lambda>e. fst e \<noteq> q) fs) = filter (\<lambda>k. k \<noteq> q) (map fst fs)"
    by (simp add: filter_map comp_def)
  then have "weight (os_unlink fs q) p
             = length (filter (\<lambda>k. k \<noteq> q \<and> prefix (os_path_join p []) k) (map fst fs))"
    unfolding weight_def os_unlink_def by (simp add: conj_commute)
  also have "\<dots> \<le> weight fs p"
    unfolding weight_def by (rule length_filter_mono) simp
  finally show ?thesis .
qed

lemma weight_reset_file: "weight (fst (reset_file b r f s)) p \<le> weight (fst s) p"
  by (auto simp: reset_file_def Let_def weight_unlink split: option.splits node.splits)

lemma weight_fold_reset_file:
  "weight (fst (fold (reset_file b r) fl s)) p \<le> weight (fst s) p"
proof (induction fl arbitrary: s)
  case Nil
  then show ?case by simp
next
  case (Cons f fl)
  have "weight (fst (fold (reset_file b r) fl (reset_file b r f s))) p
        \<le> weight (fst (reset_file b r f s)) p" by (rule Cons.IH)
  also have "\<dots> \<le> weight (fst s) p" by (rule weight_reset_file)
  finally show ?case by simp
qed

lemma stack_weight_mono:
  "(\<And>p. weight fs' p \<le> weight fs p) \<Longrightarrow> stack_weight fs' st \<le> stack_weight fs st"
  unfolding stack_weight_def by (rule sum_list_mono) simp

lemma stack_weight_append: "stack_weight fs (xs @ ys) = stack_weight fs xs + stack_weight fs ys"
  by (simp add: stack_weight_def)

lemma sum_list_filter_le: "sum_list (map f (filter P xs)) \<le> sum_list (map (f :: 'a \<Rightarrow> nat) xs)"
  by (induction xs) auto

lemma stack_weight_push:
  "stack_weight fs (walk_push fs' p (walk_dirs fs p (listdir fs p))) \<le> weight fs p"
proof -
  let ?d = "os_path_join p []"
  let ?ns = "listdir fs p"
  have names: "n \<in> set ?ns \<Longrightarrow> n \<noteq> [] \<and> CHR ''/'' \<notin> set n \<and> ?d @ n \<in> set (map fst fs)" for n
    by (simp add: set_listdir)
  have w: "n \<in> set ?ns \<Longrightarrow> Suc (weight fs (os_path_join p n))
            = Suc (length (filter (prefix (?d @ n @ ''/'')) (map fst fs)))" for n
    using names[of n] by (simp add: weight_def join_child join_child_dir)
  have "stack_weight fs (walk_push fs' p (walk_dirs fs p ?ns))
        \<le> (\<Sum>n\<leftarrow>?ns. Suc (weight fs (os_path_join p n)))"
  proof -
    have "stack_weight fs (walk_push fs' p (walk_dirs fs p ?ns))
          \<le> sum_list (map (\<lambda>q. Suc (weight fs q)) (map (os_path_join p) (walk_dirs fs p ?ns)))"
      unfolding stack_weight_def walk_push_def by (rule sum_list_filter_le)
    also have "\<dots> = sum_list (map (\<lambda>n. Suc (weight fs (os_path_join p n))) (walk_dirs fs p ?ns))"
      by (simp add: comp_def)
    also have "\<dots> \<le> (\<Sum>n\<leftarrow>?ns. Suc (weight fs (os_path_join p n)))"
      unfolding walk_dirs_def by (rule sum_list_filter_le)
    finally show ?thesis .
  qed
  also have "\<dots> = (\<Sum>n\<leftarrow>?ns. Suc (length (filter (prefix (?d @ n @ ''/'')) (map fst fs))))"
    by (rule arg_cong[where f = sum_list]) (use w in simp)
  also have "\<dots> \<le> length (filter (prefix ?d) (map fst fs))"
    by (rule children_weight[OF distinct_listdir]) (use names in blast)
  finally show ?thesis by (simp add: weight_def)
qed


subsection \<open>\<open>reset_symlinks\<close> and \<open>get_filenames\<close>\<close>

text \<open>
  \<open>os.walk\<close> keeps a stack of directories. Each round pops one, scans it (a failing scan
  is skipped without an error, since no \<open>onerror\<close> is given), yields to the loop body, and
  then pushes the sub-directories that are not links. In \<open>reset_symlinks\<close> the body edits
  the file system between the scan and the push.
\<close>

function reset_loop :: "string \<Rightarrow> string list \<Rightarrow> fs \<times> logline list \<Rightarrow> fs \<times> logline list" where
  "reset_loop blobs_dir [] s = s"
| "reset_loop blobs_dir (dirpath # stack) s =
     (case scandir (fst s) dirpath of
        None \<Rightarrow> reset_loop blobs_dir stack s
      | Some names \<Rightarrow>
          (let dirs = walk_dirs (fst s) dirpath names;
               files = walk_files (fst s) dirpath names;
               s' = fold (reset_file blobs_dir dirpath) files s
           in reset_loop blobs_dir (walk_push (fst s') dirpath dirs @ stack) s'))"
  by pat_completeness auto
termination
proof (relation "measure (\<lambda>(b, stack, s). stack_weight (fst s) stack)")
  show "wf (measure (\<lambda>(b, stack, s). stack_weight (fst s) stack))" by simp
next
  fix blobs_dir dirpath stack and s :: "fs \<times> logline list"
  show "((blobs_dir, stack, s), (blobs_dir, dirpath # stack, s))
        \<in> measure (\<lambda>(b, stack, s). stack_weight (fst s) stack)"
    by (simp add: stack_weight_def)
next
  fix blobs_dir dirpath stack and s :: "fs \<times> logline list" and names dirs files s'
  assume sc: "scandir (fst s) dirpath = Some names"
    and d: "dirs = walk_dirs (fst s) dirpath names"
    and f: "files = walk_files (fst s) dirpath names"
    and s': "s' = fold (reset_file blobs_dir dirpath) files s"
  from sc have names: "names = listdir (fst s) dirpath"
    by (auto simp: scandir_def split: if_splits)
  have le: "weight (fst s') p \<le> weight (fst s) p" for p
    unfolding s' by (rule weight_fold_reset_file)
  have "stack_weight (fst s') (walk_push (fst s') dirpath dirs @ stack)
        \<le> stack_weight (fst s) (walk_push (fst s') dirpath dirs @ stack)"
    by (rule stack_weight_mono) (rule le)
  also have "\<dots> \<le> weight (fst s) dirpath + stack_weight (fst s) stack"
    unfolding stack_weight_append d names using stack_weight_push by simp
  also have "\<dots> < stack_weight (fst s) (dirpath # stack)"
    by (simp add: stack_weight_def)
  finally show "((blobs_dir, walk_push (fst s') dirpath dirs @ stack, s'), (blobs_dir, dirpath # stack, s))
        \<in> measure (\<lambda>(b, stack, s). stack_weight (fst s) stack)"
    by simp
qed


function walk_loop :: "fs \<Rightarrow> string list \<Rightarrow> string list" where
  "walk_loop fs [] = []"
| "walk_loop fs (dirpath # stack) =
     (case scandir fs dirpath of
        None \<Rightarrow> walk_loop fs stack
      | Some names \<Rightarrow>
          map (os_path_join dirpath) (walk_files fs dirpath names)
          @ walk_loop fs (walk_push fs dirpath (walk_dirs fs dirpath names) @ stack))"
  by pat_completeness auto
termination
proof (relation "measure (\<lambda>(fs, stack). stack_weight fs stack)")
  show "wf (measure (\<lambda>(fs, stack). stack_weight fs stack))" by simp
next
  fix fs :: fs and dirpath stack
  show "((fs, stack), (fs, dirpath # stack)) \<in> measure (\<lambda>(fs, stack). stack_weight fs stack)"
    by (simp add: stack_weight_def)
next
  fix fs :: fs and dirpath stack names
  assume "scandir fs dirpath = Some names"
  then have names: "names = listdir fs dirpath"
    by (auto simp: scandir_def split: if_splits)
  have "stack_weight fs (walk_push fs dirpath (walk_dirs fs dirpath names) @ stack)
        \<le> weight fs dirpath + stack_weight fs stack"
    unfolding stack_weight_append names using stack_weight_push by simp
  also have "\<dots> < stack_weight fs (dirpath # stack)"
    by (simp add: stack_weight_def)
  finally show "((fs, walk_push fs dirpath (walk_dirs fs dirpath names) @ stack), (fs, dirpath # stack))
        \<in> measure (\<lambda>(fs, stack). stack_weight fs stack)"
    by simp
qed

text \<open>
  \<open>reset_symlinks\<close> and \<open>get_filenames\<close> receive \<open>Path\<close> objects; \<open>os.walk\<close> and
  \<open>str\<close> turn them into strings. Here they take the strings.
\<close>

definition reset_symlinks :: "fs \<Rightarrow> string \<Rightarrow> string \<Rightarrow> fs \<times> logline list" where
  "reset_symlinks fs directory blobs_dir = reset_loop blobs_dir [directory] (fs, [])"

definition get_filenames :: "fs \<Rightarrow> string \<Rightarrow> string list" where
  "get_filenames fs folder = walk_loop fs [folder]"

section \<open>Blob resolver\<close>

text \<open>
  The two statements under \<open>with open(model_path, 'r')\<close>: \<open>open\<close> fails on a path that
  does not lead to a readable regular file, \<open>json.load\<close> on contents that are not a JSON
  text. \<open>os_stat\<close> never answers with a link; that case is listed for completeness only.
\<close>

definition read_json :: "fs \<Rightarrow> string \<Rightarrow> exn + json" where
  "read_json fs path =
     (case os_stat fs path of
        Inl ENOENT \<Rightarrow> Inl FileNotFoundError
      | Inl ENOTDIR \<Rightarrow> Inl NotADirectoryError
      | Inl ELOOP \<Rightarrow> Inl OSError_ELOOP
      | Inr Directory \<Rightarrow> Inl IsADirectoryError
      | Inr (SymLink t) \<Rightarrow> Inl OSError_ELOOP
      | Inr (RegFile Unreadable) \<Rightarrow> Inl PermissionError
      | Inr (RegFile Undecodable) \<Rightarrow> Inl UnicodeDecodeError
      | Inr (RegFile Malformed) \<Rightarrow> Inl JSONDecodeError
      | Inr (RegFile TooDeep) \<Rightarrow> Inl RecursionError
      | Inr (RegFile (Parsed data)) \<Rightarrow> Inr data)"

text \<open>
  \<open>get_model_blob\<close>: the two \<open>except\<close> clauses catch \<open>FileNotFoundError\<close> and
  \<open>JSONDecodeError\<close>, print and return \<open>None\<close>; any other exception of the \<open>try\<close> body
  leaves the function. The result is Python's \<open>None\<close> or a string.
\<close>

definition get_model_blob :: "fs \<Rightarrow> string \<Rightarrow> (exn + string option) \<times> logline list" where
  "get_model_blob fs model_path =
     (case read_json fs model_path of
        Inl FileNotFoundError \<Rightarrow> (Inr None, [FileNotFoundAt model_path])
      | Inl JSONDecodeError \<Rightarrow> (Inr None, [JSONDecodeErrorIn])
      | Inl e \<Rightarrow> (Inl e, [])
      | Inr data \<Rightarrow> blob_of_json data)"

section \<open>Symlink creator\<close>

text \<open>
  \<open>os.symlink(src, target)\<close>: the directory of the target must exist, the target must
  not. The new entry is reported last by a scan.
\<close>

definition os_symlink :: "fs \<Rightarrow> string \<Rightarrow> string \<Rightarrow> exn + fs" where
  "os_symlink fs src target =
     (let parent = os_path_dirname target
      in if src = [] \<or> target = [] then Inl FileNotFoundError
         else if parent \<noteq> [] \<and> \<not> is_dir fs parent
         then (case os_stat fs parent of
                 Inl ENOENT \<Rightarrow> Inl FileNotFoundError
               | Inl ENOTDIR \<Rightarrow> Inl NotADirectoryError
               | Inl ELOOP \<Rightarrow> Inl OSError_ELOOP
               | Inr _ \<Rightarrow> Inl NotADirectoryError)
         else if lstat fs target \<noteq> None then Inl FileExistsError
         else Inr (fs @ [(target, SymLink src)]))"

text \<open>
  \<open>create_symlink\<close> re-raises whatever it catches, so an exception leaves it with the
  file system as it was.
\<close>

definition create_symlink :: "fs \<Rightarrow> string \<Rightarrow> string \<Rightarrow> (exn + bool) \<times> fs" where
  "create_symlink fs src target =
     (if \<not> os_path_exists fs src then (Inl FileNotFoundError, fs)
      else (case os_symlink fs src target of
              Inl e \<Rightarrow> (Inl e, fs)
            | Inr fs' \<Rightarrow> (Inr True, fs')))"

section \<open>Paths and orchestration\<close>

text \<open>
  A \<open>pathlib\<close> POSIX path: its root (empty, one slash, or exactly two) and its parts.
  Parsing drops empty parts and dots. \<open>a / b\<close> is \<open>b\<close> when \<open>b\<close> has a root.
\<close>

datatype pure_path = PurePath (path_root: string) (path_parts: "string list")

definition parse_path :: "string \<Rightarrow> pure_path" where
  "parse_path s =
     PurePath
       (if prefix ''//'' s \<and> \<not> prefix ''///'' s then ''//''
        else if prefix ''/'' s then ''/''
        else [])
       (filter (\<lambda>x. x \<noteq> [] \<and> x \<noteq> ''.'') (split_on CHR ''/'' s))"

fun sep_join :: "string \<Rightarrow> string list \<Rightarrow> string" where
  "sep_join sep [] = []"
| "sep_join sep [x] = x"
| "sep_join sep (x # y # ys) = x @ sep @ sep_join sep (y # ys)"

definition path_str :: "pure_path \<Rightarrow> string" where
  "path_str p =
     (if path_root p = [] \<and> path_parts p = [] then ''.''
      else path_root p @ sep_join ''/'' (path_parts p))"

definition path_div :: "pure_path \<Rightarrow> pure_path \<Rightarrow> pure_path" where
  "path_div a b =
     (if path_root b \<noteq> [] then b
      else PurePath (path_root a) (path_parts a @ path_parts b))"

text \<open>The four module-level directories, from the value of \<open>HOME\<close>.\<close>

definition ollama_models_dir :: "string \<Rightarrow> pure_path" where
  "ollama_models_dir home = path_div (parse_path home) (parse_path ''.ollama/models'')"

definition ollama_manifests_dir :: "string \<Rightarrow> pure_path" where
  "ollama_manifests_dir home =
     path_div (ollama_models_dir home) (parse_path ''manifests/registry.ollama.ai'')"

definition ollama_blobs_dir :: "string \<Rightarrow> pure_path" where
  "ollama_blobs_dir home = path_div (ollama_models_dir home) (parse_path ''blobs'')"

definition ramalama_dir :: "string \<Rightarrow> pure_path" where
  "ramalama_dir home =
     path_div (parse_path home) (parse_path ''.local/share/ramalama/models/ollama'')"

text \<open>
  The loop of the main block over the manifest files. The first component of the result
  is the exception that ended the run, if any. \<open>Path(None)\<close> raises \<open>TypeError\<close>.
\<close>

fun sync_loop ::
  "string \<Rightarrow> string list \<Rightarrow> fs \<times> logline list \<Rightarrow> exn option \<times> fs \<times> logline list" where
  "sync_loop home [] s = (None, s)"
| "sync_loop home (file # files) s =
     (case get_model_name file of
        Inl e \<Rightarrow> (Some e, s)
      | Inr name \<Rightarrow>
          (let target = path_div (ramalama_dir home) (parse_path name)
           in case get_model_blob (fst s) file of
                (Inl e, lg) \<Rightarrow> (Some e, fst s, snd s @ lg)
              | (Inr None, lg) \<Rightarrow> (Some TypeError, fst s, snd s @ lg)
              | (Inr (Some blob), lg) \<Rightarrow>
                  (let src = path_div (ollama_blobs_dir home) (parse_path blob)
                   in case create_symlink (fst s) (path_str src) (path_str target) of
                        (Inl e, fs') \<Rightarrow> (Some e, fs', snd s @ lg)
                      | (Inr ok, fs') \<Rightarrow>
                          sync_loop home files
                            (fs', snd s @ lg @
                               (if ok then [ModelSymlinked (path_str target) (path_str src)]
                                else [])))))"

text \<open>The main block: \<open>reset\<close> is the \<open>--reset\<close> flag.\<close>

definition main :: "string \<Rightarrow> bool \<Rightarrow> fs \<Rightarrow> exn option \<times> fs \<times> logline list" where
  "main home reset fs =
     (let s = reset_symlinks fs (path_str (ramalama_dir home)) (path_str (ollama_blobs_dir home))
      in if reset then (None, s)
         else sync_loop home (get_filenames (fst s) (path_str (ollama_manifests_dir home))) s)"

section \<open>Predicates and sample data for the statements\<close>

text \<open>A layer descriptor that the scan passes over: an object of another media type.\<close>

definition other_layer :: "json \<Rightarrow> bool" where
  "other_layer l =
     (case l of
        JObj kv \<Rightarrow> map_of kv ''mediaType'' \<noteq> Some (JStr model_media_type)
      | _ \<Rightarrow> False)"

text \<open>A manifest with a licence layer followed by two model layers.\<close>

definition example_manifest :: "(string \<times> json) list" where
  "example_manifest =
     [(''schemaVersion'', JNum 2),
      (''layers'',
       JArr [JObj [(''mediaType'', JStr ''application/vnd.ollama.image.license''),
                   (''digest'', JStr ''sha256:fff000'')],
             JObj [(''mediaType'', JStr ''application/vnd.ollama.image.model''),
                   (''digest'', JStr ''sha256:abc123'')],
             JObj [(''mediaType'', JStr ''application/vnd.ollama.image.model''),
                   (''digest'', JStr ''sha256:999'')]])]"

text \<open>
  A manifest directory with a file of malformed text and a binary file; no file
  \<open>latest\<close>.
\<close>

definition fs_odd_manifests :: fs where
  "fs_odd_manifests =
     [(''/m'', Directory),
      (''/m/llama3'', Directory),
      (''/m/llama3/broken'', RegFile Malformed),
      (''/m/llama3/.DS_Store'', RegFile Undecodable)]"

text \<open>The directories of a home \<open>/h\<close> with both stores, still empty.\<close>

definition sample_tree :: fs where
  "sample_tree =
     map (\<lambda>p. (p, Directory))
       [''/h'', ''/h/.ollama'', ''/h/.ollama/models'', ''/h/.ollama/models/manifests'',
        ''/h/.ollama/models/manifests/registry.ollama.ai'',
        ''/h/.ollama/models/manifests/registry.ollama.ai/library'',
        ''/h/.ollama/models/manifests/registry.ollama.ai/library/llama3'',
        ''/h/.ollama/models/blobs'',
        ''/h/.local'', ''/h/.local/share'', ''/h/.local/share/ramalama'',
        ''/h/.local/share/ramalama/models'', ''/h/.local/share/ramalama/models/ollama'']"

definition manifest_of :: "string \<Rightarrow> json" where
  "manifest_of digest =
     JObj [(''layers'', JArr [JObj [(''mediaType'', JStr model_media_type),
                                    (''digest'', JStr digest)]])]"

text \<open>Two manifests; the blob of the first one is missing from the blob store.\<close>

definition fs_missing_blob :: fs where
  "fs_missing_blob = sample_tree @
     [(''/h/.ollama/models/manifests/registry.ollama.ai/library/llama3/8b'',
         RegFile (Parsed (manifest_of ''sha256:aaa''))),
      (''/h/.ollama/models/manifests/registry.ollama.ai/library/llama3/latest'',
         RegFile (Parsed (manifest_of ''sha256:abc123''))),
      (''/h/.ollama/models/blobs/sha256-abc123'', RegFile Undecodable)]"

text \<open>
  A manifest whose model layer has no digest next to an ordinary one; the blob of the
  second is in the store.
\<close>

definition digestless_manifest :: "(string \<times> json) list" where
  "digestless_manifest =
     [(''layers'', JArr [JObj [(''mediaType'', JStr ''application/vnd.ollama.image.model'')]])]"

definition fs_digestless :: fs where
  "fs_digestless = sample_tree @
     [(''/h/.ollama/models/manifests/registry.ollama.ai/library/llama3/8b'',
         RegFile (Parsed (JObj digestless_manifest))),
      (''/h/.ollama/models/manifests/registry.ollama.ai/library/llama3/latest'',
         RegFile (Parsed (manifest_of ''sha256:abc123''))),
      (''/h/.ollama/models/blobs/sha256-abc123'', RegFile Undecodable)]"


text \<open>The same without the target directory.\<close>

definition fs_no_target_dir :: fs where
  "fs_no_target_dir =
     filter (\<lambda>e. fst e \<noteq> ''/h/.local/share/ramalama/models/ollama'') fs_digestless"

text \<open>The symbolic links of a file system, each with its stored target.\<close>

fun symlinks_of :: "fs \<Rightarrow> (string \<times> string) list" where
  "symlinks_of [] = []"
| "symlinks_of ((p, SymLink t) # fs) = (p, t) # symlinks_of fs"
| "symlinks_of (e # fs) = symlinks_of fs"

text \<open>A manifest without a model layer next to an ordinary one.\<close>

definition licence_only_manifest :: json where
  "licence_only_manifest =
     JObj [(''layers'', JArr [JObj [(''mediaType'', JStr ''application/vnd.ollama.image.license''),
                                    (''digest'', JStr ''sha256:fff000'')]])]"

definition fs_no_model_layer :: fs where
  "fs_no_model_layer = sample_tree @
     [(''/h/.ollama/models/manifests/registry.ollama.ai/library/llama3/8b'',
         RegFile (Parsed licence_only_manifest)),
      (''/h/.ollama/models/manifests/registry.ollama.ai/library/llama3/latest'',
         RegFile (Parsed (manifest_of ''sha256:abc123''))),
      (''/h/.ollama/models/blobs/sha256-abc123'', RegFile Undecodable)]"

text \<open>
  The directories that the walk of \<open>root\<close> reaches: \<open>root\<close> itself, and below a reached
  directory every entry that is a directory and not a link.
\<close>

inductive walked :: "fs \<Rightarrow> string \<Rightarrow> string \<Rightarrow> bool" for fs :: fs and root :: string where
  walked_root: "walked fs root root"
| walked_sub: "walked fs root d \<Longrightarrow> n \<in> set (listdir fs d)
     \<Longrightarrow> lstat fs (os_path_join d n) = Some Directory
     \<Longrightarrow> walked fs root (os_path_join d n)"

code_pred walked .

text \<open>
  A file system without the paths of a set, and the test of \<open>reset_symlinks\<close> on the
  stored text of a link.
\<close>

definition rm :: "string set \<Rightarrow> fs \<Rightarrow> fs" where
  "rm S fs = filter (\<lambda>e. fst e \<notin> S) fs"

definition linkto :: "fs \<Rightarrow> string \<Rightarrow> string \<Rightarrow> bool" where
  "linkto fs b p = (case lstat fs p of Some (SymLink t) \<Rightarrow> prefix b t | _ \<Rightarrow> False)"

text \<open>
  The paths a reset removes: in one directory, the entries that the walk lists among the
  files and that are links into \<open>b\<close>; then below a root, and below the roots of a stack.
\<close>

definition doomed_in :: "fs \<Rightarrow> string \<Rightarrow> string \<Rightarrow> string set" where
  "doomed_in fs b d =
     {p. \<exists>n \<in> set (listdir fs d). p = os_path_join d n \<and> \<not> is_dir fs p \<and> linkto fs b p}"

definition doomed :: "fs \<Rightarrow> string \<Rightarrow> string \<Rightarrow> string set" where
  "doomed fs b root = (if is_dir fs root then \<Union>d \<in> {d. walked fs root d}. doomed_in fs b d else {})"

definition doomed_stack :: "fs \<Rightarrow> string \<Rightarrow> string list \<Rightarrow> string set" where
  "doomed_stack fs b stack = (\<Union>r \<in> set stack. doomed fs b r)"

text \<open>
  A target directory with a single link to the blob directory itself, and a home in which
  the manifests of the source tool do not exist.
\<close>

definition fs_dir_link :: fs where
  "fs_dir_link = sample_tree @
     [(''/h/.local/share/ramalama/models/ollama/llama3:8b'', SymLink ''/h/.ollama/models/blobs'')]"

definition fs_fresh_home :: fs where
  "fs_fresh_home =
     map (\<lambda>p. (p, Directory))
       [''/h'', ''/h/.local'', ''/h/.local/share'', ''/h/.local/share/ramalama'',
        ''/h/.local/share/ramalama/models'', ''/h/.local/share/ramalama/models/ollama'']"

section \<open>Properties of the name resolver\<close>

lemma split_on_not_Nil: "split_on c xs \<noteq> []"
  by (induction xs) (auto split: list.splits)

lemma split_on_no_sep: "c \<notin> set xs \<Longrightarrow> split_on c xs = [xs]"
  by (induction xs) auto

lemma split_on_append: "split_on c (xs @ c # ys) = split_on c xs @ split_on c ys"
  by (induction xs) (auto simp: split_on_not_Nil split: list.splits)

lemma get_model_name_parts:
  assumes "split_on CHR ''/'' filename = ps @ [name, tag]"
  shows "get_model_name filename = Inr (name @ '':'' @ tag)"
  using assms by (simp add: get_model_name_def Let_def nth_append)

text \<open>
  C6: for every manifest path of the shape \<open>.../<name>/<tag>\<close>, with at least two
  slash-separated components, \<open>get_model_name\<close> returns \<open><name>:<tag>\<close>, the last two
  segments joined by a colon.
\<close>

theorem get_model_name_last_two_segments:
  assumes "CHR ''/'' \<notin> set name" and "CHR ''/'' \<notin> set tag"
  shows "get_model_name (pre @ ''/'' @ name @ ''/'' @ tag) = Inr (name @ '':'' @ tag)
       \<and> get_model_name (name @ ''/'' @ tag) = Inr (name @ '':'' @ tag)"
proof
  have "split_on CHR ''/'' (pre @ ''/'' @ name @ ''/'' @ tag)
        = split_on CHR ''/'' pre @ [name, tag]"
    using assms by (simp add: split_on_append split_on_no_sep)
  then show "get_model_name (pre @ ''/'' @ name @ ''/'' @ tag) = Inr (name @ '':'' @ tag)"
    by (rule get_model_name_parts)
next
  have "split_on CHR ''/'' (name @ ''/'' @ tag) = [] @ [name, tag]"
    using assms by (simp add: split_on_append split_on_no_sep)
  then show "get_model_name (name @ ''/'' @ tag) = Inr (name @ '':'' @ tag)"
    by (rule get_model_name_parts)
qed

theorem get_model_name_last_two_segments_witness:
  "CHR ''/'' \<notin> set ''llama3'' \<and> CHR ''/'' \<notin> set ''latest''
   \<and> get_model_name ''/m/registry.ollama.ai/library/llama3/latest'' = Inr ''llama3:latest''
   \<and> get_model_name ''llama3/latest'' = Inr ''llama3:latest''"
  using get_model_name_last_two_segments [of "''llama3''" "''latest''" "''/m/registry.ollama.ai/library''"]
  by simp

section \<open>Properties of the blob resolver\<close>

lemma str_replace_absent:
  "old \<noteq> [] \<Longrightarrow> x \<in> set old \<Longrightarrow> x \<notin> set s \<Longrightarrow> str_replace old new s = s"
proof (induction s)
  case Nil
  then show ?case by simp
next
  case (Cons c cs)
  have "\<not> prefix old (c # cs)"
  proof
    assume "prefix old (c # cs)"
    then have "set old \<subseteq> set (c # cs)" by (rule set_mono_prefix)
    with Cons.prems show False by auto
  qed
  with Cons show ?case by simp
qed

lemma str_replace_scheme:
  assumes "CHR '':'' \<notin> set hex"
  shows "str_replace ''sha256:'' ''sha256-'' (''sha256:'' @ hex) = ''sha256-'' @ hex"
proof -
  have "str_replace ''sha256:'' ''sha256-'' hex = hex"
    by (rule str_replace_absent[where x = "CHR '':''"]) (use assms in simp_all)
  then show ?thesis by simp
qed

lemma scan_layers_first:
  assumes "\<forall>l \<in> set pre. other_layer l"
    and "map_of layer ''mediaType'' = Some (JStr model_media_type)"
  shows "scan_layers (pre @ JObj layer # post)
         = (case digest_filename (JObj layer) of Inl e \<Rightarrow> Inl e | Inr d \<Rightarrow> Inr (Some d))"
  using assms
proof (induction pre)
  case Nil
  then show ?case by (simp add: dict_get_def)
next
  case (Cons l pre)
  then obtain kv where "l = JObj kv" "map_of kv ''mediaType'' \<noteq> Some (JStr model_media_type)"
    by (auto simp: other_layer_def split: json.splits)
  with Cons show ?case by (auto simp: dict_get_def split: option.splits)
qed

lemma stat_follow_numeral:
  "stat_follow (numeral k) fs p =
     (case lstat fs p of
        None \<Rightarrow> Inl (missing_errno fs p)
      | Some (SymLink t) \<Rightarrow> stat_follow (pred_numeral k) fs (os_path_join (os_path_dirname p) t)
      | Some nd \<Rightarrow> Inr nd)"
  by (simp add: numeral_eq_Suc)

lemma os_stat_lstat:
  "os_stat fs p =
     (case lstat fs p of
        None \<Rightarrow> Inl (missing_errno fs p)
      | Some (SymLink t) \<Rightarrow> stat_follow max_symlinks fs (os_path_join (os_path_dirname p) t)
      | Some nd \<Rightarrow> Inr nd)"
  by (simp add: os_stat_def)

lemma read_json_regular:
  "os_stat fs p = Inr (RegFile (Parsed data)) \<Longrightarrow> read_json fs p = Inr data"
  by (simp add: read_json_def)

text \<open>
  C7: for a manifest whose JSON has a \<open>layers\<close> sequence, \<open>get_model_blob\<close> scans the
  layers in order and returns, for the first layer whose \<open>mediaType\<close> is the model media
  type, its digest with \<open>sha256:\<close> rewritten to \<open>sha256-\<close>; a digest \<open>sha256:abc123\<close>
  gives \<open>sha256-abc123\<close>.
\<close>

theorem get_model_blob_first_model_layer:
  assumes "os_stat fs model_path = Inr (RegFile (Parsed (JObj doc)))"
    and "map_of doc ''layers'' = Some (JArr (pre @ JObj layer # post))"
    and "\<forall>l \<in> set pre. other_layer l"
    and "map_of layer ''mediaType'' = Some (JStr model_media_type)"
    and "map_of layer ''digest'' = Some (JStr digest)"
  shows "get_model_blob fs model_path
           = (Inr (Some (str_replace ''sha256:'' ''sha256-'' digest)), [])
       \<and> (\<forall>hex. CHR '':'' \<notin> set hex \<and> digest = ''sha256:'' @ hex
              \<longrightarrow> get_model_blob fs model_path = (Inr (Some (''sha256-'' @ hex)), []))"
proof -
  have "digest_filename (JObj layer) = Inr (str_replace ''sha256:'' ''sha256-'' digest)"
    using assms(5) by (simp add: digest_filename_def dict_get_def)
  then have "scan_layers (pre @ JObj layer # post)
             = Inr (Some (str_replace ''sha256:'' ''sha256-'' digest))"
    using scan_layers_first[OF assms(3,4)] by simp
  then have "blob_of_json (JObj doc)
             = (Inr (Some (str_replace ''sha256:'' ''sha256-'' digest)), [])"
    using assms(2) by (simp add: blob_of_json_def dict_get_def py_iter_def)
  then have main: "get_model_blob fs model_path
             = (Inr (Some (str_replace ''sha256:'' ''sha256-'' digest)), [])"
    using read_json_regular[OF assms(1)] by (simp add: get_model_blob_def)
  show ?thesis
  proof (intro conjI allI impI)
    show "get_model_blob fs model_path
           = (Inr (Some (str_replace ''sha256:'' ''sha256-'' digest)), [])" by (rule main)
  next
    fix hex assume "CHR '':'' \<notin> set hex \<and> digest = ''sha256:'' @ hex"
    then show "get_model_blob fs model_path = (Inr (Some (''sha256-'' @ hex)), [])"
      using main str_replace_scheme[of hex] by simp
  qed
qed

theorem get_model_blob_first_model_layer_witness:
  "get_model_blob [(''/m/llama3/latest'', RegFile (Parsed (JObj example_manifest)))] ''/m/llama3/latest''
     = (Inr (Some ''sha256-abc123''), [])"
proof -
  let ?fs = "[(''/m/llama3/latest'', RegFile (Parsed (JObj example_manifest)))]"
  let ?layer = "[(''mediaType'', JStr ''application/vnd.ollama.image.model''),
                 (''digest'', JStr ''sha256:abc123'')]"
  let ?pre = "[JObj [(''mediaType'', JStr ''application/vnd.ollama.image.license''),
                     (''digest'', JStr ''sha256:fff000'')]]"
  let ?post = "[JObj [(''mediaType'', JStr ''application/vnd.ollama.image.model''),
                      (''digest'', JStr ''sha256:999'')]]"
  have 1: "os_stat ?fs ''/m/llama3/latest'' = Inr (RegFile (Parsed (JObj example_manifest)))"
    by (simp add: os_stat_lstat lstat_def)
  have 2: "map_of example_manifest ''layers'' = Some (JArr (?pre @ JObj ?layer # ?post))"
    by (simp add: example_manifest_def)
  have 3: "\<forall>l \<in> set ?pre. other_layer l"
    by (simp add: other_layer_def model_media_type_def)
  have 4: "map_of ?layer ''mediaType'' = Some (JStr model_media_type)"
    by (simp add: model_media_type_def)
  have 5: "map_of ?layer ''digest'' = Some (JStr ''sha256:abc123'')"
    by simp
  from get_model_blob_first_model_layer[OF 1 2 3 4 5]
  show ?thesis by simp
qed

text \<open>
  C8, as amended: for a manifest path that does not exist (\<open>open\<close> raises
  \<open>FileNotFoundError\<close>), or whose file holds text that is not valid JSON (\<open>json.load\<close>
  raises \<open>JSONDecodeError\<close>), \<open>get_model_blob\<close> raises nothing: it prints one diagnostic
  line and returns \<open>None\<close>. Every other exception of \<open>open\<close> or \<open>json.load\<close> leaves the
  function.
\<close>

theorem get_model_blob_missing_or_malformed:
  "(os_stat fs model_path = Inl ENOENT
      \<longrightarrow> get_model_blob fs model_path = (Inr None, [FileNotFoundAt model_path]))
   \<and> (os_stat fs model_path = Inr (RegFile Malformed)
      \<longrightarrow> get_model_blob fs model_path = (Inr None, [JSONDecodeErrorIn]))
   \<and> (\<forall>e. read_json fs model_path = Inl e \<and> e \<noteq> FileNotFoundError \<and> e \<noteq> JSONDecodeError
      \<longrightarrow> get_model_blob fs model_path = (Inl e, []))"
proof (intro conjI allI impI)
  assume "os_stat fs model_path = Inl ENOENT"
  then have "read_json fs model_path = Inl FileNotFoundError"
    by (simp add: read_json_def)
  then show "get_model_blob fs model_path = (Inr None, [FileNotFoundAt model_path])"
    by (simp add: get_model_blob_def)
next
  assume "os_stat fs model_path = Inr (RegFile Malformed)"
  then have "read_json fs model_path = Inl JSONDecodeError"
    by (simp add: read_json_def)
  then show "get_model_blob fs model_path = (Inr None, [JSONDecodeErrorIn])"
    by (simp add: get_model_blob_def)
next
  fix e
  assume "read_json fs model_path = Inl e \<and> e \<noteq> FileNotFoundError \<and> e \<noteq> JSONDecodeError"
  then show "get_model_blob fs model_path = (Inl e, [])"
    by (cases e) (simp_all add: get_model_blob_def)
qed

theorem get_model_blob_missing_or_malformed_witness:
  "os_stat fs_odd_manifests ''/m/llama3/latest'' = Inl ENOENT
   \<and> get_model_blob fs_odd_manifests ''/m/llama3/latest''
       = (Inr None, [FileNotFoundAt ''/m/llama3/latest''])
   \<and> os_stat fs_odd_manifests ''/m/llama3/broken'' = Inr (RegFile Malformed)
   \<and> get_model_blob fs_odd_manifests ''/m/llama3/broken'' = (Inr None, [JSONDecodeErrorIn])
   \<and> read_json fs_odd_manifests ''/m/llama3/broken/8b'' = Inl NotADirectoryError
   \<and> get_model_blob fs_odd_manifests ''/m/llama3/broken/8b'' = (Inl NotADirectoryError, [])"
proof -
  have a: "os_stat fs_odd_manifests ''/m/llama3/latest'' = Inl ENOENT"
    by code_simp
  have b: "os_stat fs_odd_manifests ''/m/llama3/broken'' = Inr (RegFile Malformed)"
    by code_simp
  have c: "read_json fs_odd_manifests ''/m/llama3/broken/8b'' = Inl NotADirectoryError"
    by code_simp
  note t1 = get_model_blob_missing_or_malformed[of fs_odd_manifests "''/m/llama3/latest''"]
  note t2 = get_model_blob_missing_or_malformed[of fs_odd_manifests "''/m/llama3/broken''"]
  note t3 = get_model_blob_missing_or_malformed[of fs_odd_manifests "''/m/llama3/broken/8b''"]
  have a': "get_model_blob fs_odd_manifests ''/m/llama3/latest''
       = (Inr None, [FileNotFoundAt ''/m/llama3/latest''])"
    using t1 a by blast
  have b': "get_model_blob fs_odd_manifests ''/m/llama3/broken'' = (Inr None, [JSONDecodeErrorIn])"
    using t2 b by blast
  have "NotADirectoryError \<noteq> FileNotFoundError \<and> NotADirectoryError \<noteq> JSONDecodeError"
    by simp
  with t3 c have c': "get_model_blob fs_odd_manifests ''/m/llama3/broken/8b''
       = (Inl NotADirectoryError, [])"
    by blast
  from a a' b b' c c' show ?thesis by (intro conjI)
qed

text \<open>
  C8, as stated, covers every file whose contents are not valid JSON. A binary file is
  such a file, and reading it raises \<open>UnicodeDecodeError\<close>, which is not caught.
\<close>

theorem get_model_blob_raises_on_binary_file:
  "os_stat fs_odd_manifests ''/m/llama3/.DS_Store'' = Inr (RegFile Undecodable)
   \<and> get_model_blob fs_odd_manifests ''/m/llama3/.DS_Store'' = (Inl UnicodeDecodeError, [])"
  by code_simp


section \<open>Properties of paths\<close>

lemma split_on_parts_no_sep: "p \<in> set (split_on c s) \<Longrightarrow> c \<notin> set p"
proof (induction s arbitrary: p)
  case Nil
  then show ?case by simp
next
  case (Cons x xs)
  then show ?case
    by (cases "split_on c xs") (auto simp: split_on_not_Nil split: if_splits)
qed

lemma get_model_name_shape:
  assumes "get_model_name file = Inr name"
  shows "CHR ''/'' \<notin> set name \<and> name \<noteq> [] \<and> name \<noteq> ''.''"
proof -
  let ?ps = "split_on CHR ''/'' file"
  from assms have len: "2 \<le> length ?ps"
    and name: "name = ?ps ! (length ?ps - 2) @ '':'' @ ?ps ! (length ?ps - 1)"
    by (auto simp: get_model_name_def Let_def split: if_splits)
  have "?ps ! (length ?ps - 2) \<in> set ?ps" "?ps ! (length ?ps - 1) \<in> set ?ps"
    using len by auto
  then have "CHR ''/'' \<notin> set (?ps ! (length ?ps - 2))" "CHR ''/'' \<notin> set (?ps ! (length ?ps - 1))"
    by (auto dest: split_on_parts_no_sep)
  then have "CHR ''/'' \<notin> set name" using name by simp
  moreover have colon: "CHR '':'' \<in> set name" using name by simp
  moreover have "name \<noteq> []" using colon by auto
  moreover have "name \<noteq> ''.''"
  proof
    assume "name = ''.''"
    with colon show False by simp
  qed
  ultimately show ?thesis by simp
qed

lemma parse_path_name:
  assumes "CHR ''/'' \<notin> set name" "name \<noteq> []" "name \<noteq> ''.''"
  shows "parse_path name = PurePath [] [name]"
proof -
  have "\<not> prefix ''/'' name" using assms(1) by (cases name) auto
  moreover have "\<not> prefix ''//'' name" using assms(1) by (cases name) auto
  ultimately show ?thesis using assms
    by (simp add: parse_path_def split_on_no_sep)
qed

lemma sep_join_snoc: "ps \<noteq> [] \<Longrightarrow> sep_join sep (ps @ [x]) = sep_join sep ps @ sep @ x"
  by (induction sep ps rule: sep_join.induct) auto

lemma path_str_child:
  assumes "path_parts d \<noteq> []"
  shows "path_str (path_div d (PurePath [] [name])) = path_str d @ ''/'' @ name"
  using assms by (simp add: path_str_def path_div_def sep_join_snoc)

lemma path_div_empty: "path_div d (parse_path []) = d"
  by (simp add: path_div_def parse_path_def)

lemma ramalama_dir_parts:
  "path_parts (ramalama_dir home)
   = path_parts (parse_path home) @ [''.local'', ''share'', ''ramalama'', ''models'', ''ollama'']"
  by (simp add: ramalama_dir_def path_div_def parse_path_def)

lemma ollama_blobs_dir_parts:
  "path_parts (ollama_blobs_dir home)
   = path_parts (parse_path home) @ [''.ollama'', ''models'', ''blobs'']"
  by (simp add: ollama_blobs_dir_def ollama_models_dir_def path_div_def parse_path_def)

lemma sep_join_last: "ps \<noteq> [] \<Longrightarrow> \<exists>y. sep_join sep ps = y @ last ps"
  by (induction sep ps rule: sep_join.induct) auto

lemma path_str_last:
  assumes "path_parts d \<noteq> []"
  shows "\<exists>y. path_str d = y @ last (path_parts d)"
proof -
  obtain y where "sep_join ''/'' (path_parts d) = y @ last (path_parts d)"
    using sep_join_last[OF assms] by blast
  then have "path_str d = (path_root d @ y) @ last (path_parts d)"
    using assms by (simp add: path_str_def)
  then show ?thesis by blast
qed

lemma dirname_child:
  assumes "CHR ''/'' \<notin> set name" "CHR ''/'' \<notin> set w" "w \<noteq> []"
  shows "os_path_dirname ((y @ w) @ ''/'' @ name) = y @ w"
proof -
  have 1: "dropWhile (\<lambda>c. c \<noteq> CHR ''/'') (rev name @ CHR ''/'' # rev w @ rev y)
           = CHR ''/'' # rev w @ rev y"
  proof -
    have "dropWhile (\<lambda>c. c \<noteq> CHR ''/'') (rev name @ CHR ''/'' # rev w @ rev y)
          = dropWhile (\<lambda>c. c \<noteq> CHR ''/'') (CHR ''/'' # rev w @ rev y)"
      by (rule dropWhile_append2) (use assms(1) in auto)
    then show ?thesis by simp
  qed
  obtain a w' where w: "rev w = a # w'" using assms(3) by (cases "rev w") auto
  have "a \<in> set w" using w by (metis list.set_intros(1) set_rev)
  then have a: "a \<noteq> CHR ''/''" using assms(2) by auto
  let ?head = "rev (dropWhile (\<lambda>c. c \<noteq> CHR ''/'') (rev ((y @ w) @ ''/'' @ name)))"
  have head: "?head = y @ w @ ''/''" using 1 by simp
  have nonslash: "?head \<noteq> [] \<and> (\<exists>c \<in> set ?head. c \<noteq> CHR ''/'')"
    unfolding head using \<open>a \<in> set w\<close> a by auto
  have "rev (dropWhile (\<lambda>c. c = CHR ''/'') (rev ?head)) = y @ w"
    unfolding head using w a by simp
  with nonslash show ?thesis
    unfolding os_path_dirname_def Let_def by presburger
qed

lemma ramalama_target:
  assumes "get_model_name file = Inr name"
  shows "path_str (path_div (ramalama_dir home) (parse_path name))
           = path_str (ramalama_dir home) @ ''/'' @ name"
    and "os_path_dirname (path_str (ramalama_dir home) @ ''/'' @ name)
           = path_str (ramalama_dir home)"
    and "path_str (ramalama_dir home) @ ''/'' @ name \<noteq> []"
proof -
  from get_model_name_shape[OF assms]
  have n: "CHR ''/'' \<notin> set name" "name \<noteq> []" "name \<noteq> ''.''" by simp_all
  have parts: "path_parts (ramalama_dir home) \<noteq> []" by (simp add: ramalama_dir_parts)
  show "path_str (path_div (ramalama_dir home) (parse_path name))
           = path_str (ramalama_dir home) @ ''/'' @ name"
    using parse_path_name[OF n] path_str_child[OF parts] by simp
  obtain y where y: "path_str (ramalama_dir home) = y @ ''ollama''"
    using path_str_last[OF parts] by (auto simp: ramalama_dir_parts)
  have "os_path_dirname ((y @ ''ollama'') @ ''/'' @ name) = y @ ''ollama''"
    by (rule dirname_child) (use n in simp_all)
  then show "os_path_dirname (path_str (ramalama_dir home) @ ''/'' @ name)
           = path_str (ramalama_dir home)"
    unfolding y by simp
  show "path_str (ramalama_dir home) @ ''/'' @ name \<noteq> []" by simp
qed

lemma blobs_dir_str_nonempty: "path_str (ollama_blobs_dir home) \<noteq> []"
proof -
  have "path_parts (ollama_blobs_dir home) \<noteq> []" by (simp add: ollama_blobs_dir_parts)
  from path_str_last[OF this] show ?thesis by (auto simp: ollama_blobs_dir_parts)
qed

section \<open>Properties of the orchestration\<close>

text \<open>
  C5: for every source path that does not exist, \<open>create_symlink\<close> raises
  \<open>FileNotFoundError\<close> and creates no link, and since nothing in the main loop catches
  the exception the run ends there instead of going on to the next manifest.
\<close>

theorem create_symlink_missing_source:
  "(\<not> os_path_exists fs src \<longrightarrow> create_symlink fs src target = (Inl FileNotFoundError, fs))
   \<and> (get_model_name file = Inr name
        \<and> get_model_blob fs file = (Inr (Some blob), lg)
        \<and> \<not> os_path_exists fs (path_str (path_div (ollama_blobs_dir home) (parse_path blob)))
      \<longrightarrow> sync_loop home (file # files) (fs, out) = (Some FileNotFoundError, fs, out @ lg))"
  by (simp add: create_symlink_def Let_def)

theorem create_symlink_missing_source_witness:
  "\<not> os_path_exists fs_missing_blob ''/h/.ollama/models/blobs/sha256-aaa''
   \<and> create_symlink fs_missing_blob ''/h/.ollama/models/blobs/sha256-aaa''
         ''/h/.local/share/ramalama/models/ollama/llama3:8b''
       = (Inl FileNotFoundError, fs_missing_blob)
   \<and> sync_loop ''/h''
         [''/h/.ollama/models/manifests/registry.ollama.ai/library/llama3/8b'',
          ''/h/.ollama/models/manifests/registry.ollama.ai/library/llama3/latest'']
         (fs_missing_blob, [])
       = (Some FileNotFoundError, fs_missing_blob, [])"
proof -
  let ?f = "''/h/.ollama/models/manifests/registry.ollama.ai/library/llama3/8b''"
  have a: "\<not> os_path_exists fs_missing_blob ''/h/.ollama/models/blobs/sha256-aaa''"
    by code_simp
  have b: "get_model_name ?f = Inr ''llama3:8b''"
    by code_simp
  have c: "get_model_blob fs_missing_blob ?f = (Inr (Some ''sha256-aaa''), [])"
    by code_simp
  have d: "path_str (path_div (ollama_blobs_dir ''/h'') (parse_path ''sha256-aaa''))
           = ''/h/.ollama/models/blobs/sha256-aaa''"
    by code_simp
  from a b c d
    create_symlink_missing_source[of fs_missing_blob "''/h/.ollama/models/blobs/sha256-aaa''"
      "''/h/.local/share/ramalama/models/ollama/llama3:8b''" ?f "''llama3:8b''" "''sha256-aaa''" "[]" "''/h''"
      "[''/h/.ollama/models/manifests/registry.ollama.ai/library/llama3/latest'']" "[]"]
  show ?thesis by simp
qed


text \<open>
  C10, as amended: when the first layer of the model media type has no \<open>digest\<close> key,
  \<open>get_model_blob\<close> returns the empty string rather than \<open>None\<close>; the link source is
  then the blob directory itself and, when that directory exists, the target directory
  exists and nothing in it has the name of the model yet, a link named after the model
  and pointing at the blob directory is created.
\<close>

theorem digestless_layer_links_blob_directory:
  assumes "os_stat fs file = Inr (RegFile (Parsed (JObj doc)))"
    and "map_of doc ''layers'' = Some (JArr (pre @ JObj layer # post))"
    and "\<forall>l \<in> set pre. other_layer l"
    and "map_of layer ''mediaType'' = Some (JStr model_media_type)"
    and "map_of layer ''digest'' = None"
    and "get_model_name file = Inr name"
    and "os_path_exists fs (path_str (ollama_blobs_dir home))"
    and "is_dir fs (path_str (ramalama_dir home))"
    and "lstat fs (path_str (ramalama_dir home) @ ''/'' @ name) = None"
  shows "get_model_blob fs file = (Inr (Some []), [])
       \<and> sync_loop home (file # files) (fs, out)
           = sync_loop home files
               (fs @ [(path_str (ramalama_dir home) @ ''/'' @ name,
                       SymLink (path_str (ollama_blobs_dir home)))],
                out @ [ModelSymlinked (path_str (ramalama_dir home) @ ''/'' @ name)
                         (path_str (ollama_blobs_dir home))])"
proof -
  let ?T = "path_str (ramalama_dir home) @ ''/'' @ name"
  let ?B = "path_str (ollama_blobs_dir home)"
  have "digest_filename (JObj layer) = Inr []"
    using assms(5) by (simp add: digest_filename_def dict_get_def)
  then have "scan_layers (pre @ JObj layer # post) = Inr (Some [])"
    using scan_layers_first[OF assms(3,4)] by simp
  then have "blob_of_json (JObj doc) = (Inr (Some []), [])"
    using assms(2) by (simp add: blob_of_json_def dict_get_def py_iter_def)
  then have blob: "get_model_blob fs file = (Inr (Some []), [])"
    using read_json_regular[OF assms(1)] by (simp add: get_model_blob_def)
  have "os_symlink fs ?B ?T = Inr (fs @ [(?T, SymLink ?B)])"
    using assms(8,9) ramalama_target(2,3)[OF assms(6), of home] blobs_dir_str_nonempty[of home]
    by (simp add: os_symlink_def Let_def)
  then have "create_symlink fs ?B ?T = (Inr True, fs @ [(?T, SymLink ?B)])"
    using assms(7) by (simp add: create_symlink_def)
  then have "sync_loop home (file # files) (fs, out)
           = sync_loop home files (fs @ [(?T, SymLink ?B)], out @ [ModelSymlinked ?T ?B])"
    using assms(6) blob ramalama_target(1)[OF assms(6), of home]
    by (simp add: path_div_empty Let_def)
  with blob show ?thesis by simp
qed

theorem digestless_layer_links_blob_directory_witness:
  "get_model_blob fs_digestless
      ''/h/.ollama/models/manifests/registry.ollama.ai/library/llama3/8b'' = (Inr (Some []), [])
   \<and> sync_loop ''/h'' [''/h/.ollama/models/manifests/registry.ollama.ai/library/llama3/8b'']
         (fs_digestless, [])
       = (None,
          fs_digestless @ [(''/h/.local/share/ramalama/models/ollama/llama3:8b'',
                            SymLink ''/h/.ollama/models/blobs'')],
          [ModelSymlinked ''/h/.local/share/ramalama/models/ollama/llama3:8b''
             ''/h/.ollama/models/blobs''])"
proof -
  let ?f = "''/h/.ollama/models/manifests/registry.ollama.ai/library/llama3/8b''"
  let ?layer = "[(''mediaType'', JStr ''application/vnd.ollama.image.model'')]"
  have 1: "os_stat fs_digestless ?f = Inr (RegFile (Parsed (JObj digestless_manifest)))"
    by code_simp
  have 2: "map_of digestless_manifest ''layers'' = Some (JArr ([] @ JObj ?layer # []))"
    by (simp add: digestless_manifest_def)
  have 3: "\<forall>l \<in> set []. other_layer l" by simp
  have 4: "map_of ?layer ''mediaType'' = Some (JStr model_media_type)"
    by (simp add: model_media_type_def)
  have 5: "map_of ?layer ''digest'' = None" by simp
  have 6: "get_model_name ?f = Inr ''llama3:8b''" by code_simp
  have r: "path_str (ramalama_dir ''/h'') = ''/h/.local/share/ramalama/models/ollama''"
    by code_simp
  have b: "path_str (ollama_blobs_dir ''/h'') = ''/h/.ollama/models/blobs''"
    by code_simp
  have 7: "os_path_exists fs_digestless (path_str (ollama_blobs_dir ''/h''))"
    by code_simp
  have 8: "is_dir fs_digestless (path_str (ramalama_dir ''/h''))"
    by code_simp
  have 9: "lstat fs_digestless (path_str (ramalama_dir ''/h'') @ ''/'' @ ''llama3:8b'') = None"
    by code_simp
  from digestless_layer_links_blob_directory[OF 1 2 3 4 5 6 7 8 9, of "[]" "[]"]
  show ?thesis by (simp add: r b)
qed


text \<open>
  C10, as stated, needs no more than the blob directory to exist. With a digestless layer
  and the blob directory in place, no link is created when the name is taken, as it is
  after a first sync, or when the target directory is missing: \<open>os.symlink\<close> raises and
  the run ends.
\<close>

theorem digestless_layer_link_needs_free_target:
  "get_model_blob
       (fs_digestless @
          [(''/h/.local/share/ramalama/models/ollama/llama3:8b'', SymLink ''/h/.ollama/models/blobs'')])
       ''/h/.ollama/models/manifests/registry.ollama.ai/library/llama3/8b''
     = (Inr (Some []), [])
   \<and> os_path_exists
       (fs_digestless @
          [(''/h/.local/share/ramalama/models/ollama/llama3:8b'', SymLink ''/h/.ollama/models/blobs'')])
       (path_str (ollama_blobs_dir ''/h''))
   \<and> sync_loop ''/h'' [''/h/.ollama/models/manifests/registry.ollama.ai/library/llama3/8b'']
       (fs_digestless @
          [(''/h/.local/share/ramalama/models/ollama/llama3:8b'', SymLink ''/h/.ollama/models/blobs'')],
        [])
     = (Some FileExistsError,
        fs_digestless @
          [(''/h/.local/share/ramalama/models/ollama/llama3:8b'', SymLink ''/h/.ollama/models/blobs'')],
        [])
   \<and> get_model_blob fs_no_target_dir
       ''/h/.ollama/models/manifests/registry.ollama.ai/library/llama3/8b''
     = (Inr (Some []), [])
   \<and> os_path_exists fs_no_target_dir (path_str (ollama_blobs_dir ''/h''))
   \<and> sync_loop ''/h'' [''/h/.ollama/models/manifests/registry.ollama.ai/library/llama3/8b'']
       (fs_no_target_dir, [])
     = (Some FileNotFoundError, fs_no_target_dir, [])"
  by code_simp

text \<open>
  C1: for a manifest without a layer of the model media type, blob resolution returns
  \<open>None\<close> after printing a message, no link is attempted for it, and the loop goes on
  with the remaining manifests. On \<open>fs_no_model_layer\<close> the first two parts hold, but
  \<open>Path(None)\<close> raises \<open>TypeError\<close> and the run ends before the second manifest, whose
  blob is in the store, is linked.
\<close>

theorem sync_stops_at_manifest_without_model_layer:
  "get_filenames fs_no_model_layer (path_str (ollama_manifests_dir ''/h''))
     = [''/h/.ollama/models/manifests/registry.ollama.ai/library/llama3/8b'',
        ''/h/.ollama/models/manifests/registry.ollama.ai/library/llama3/latest'']
   \<and> get_model_blob fs_no_model_layer
         ''/h/.ollama/models/manifests/registry.ollama.ai/library/llama3/8b''
       = (Inr None, [NoMatchingLayer])
   \<and> main ''/h'' False fs_no_model_layer = (Some TypeError, fs_no_model_layer, [NoMatchingLayer])"
  by code_simp

text \<open>
  C2: running sync twice, manifests and blobs unchanged, leaves the same links as
  running it once. On \<open>fs_digestless\<close> the first run creates two links. The link to the
  blob directory is listed by the walk among the directories, so the second run does not
  remove it, fails on it with \<open>FileExistsError\<close>, and leaves one link.
\<close>

theorem second_sync_loses_links:
  "fst (main ''/h'' False fs_digestless) = None
   \<and> symlinks_of (fst (snd (main ''/h'' False fs_digestless)))
       = [(''/h/.local/share/ramalama/models/ollama/llama3:8b'', ''/h/.ollama/models/blobs''),
          (''/h/.local/share/ramalama/models/ollama/llama3:latest'',
           ''/h/.ollama/models/blobs/sha256-abc123'')]
   \<and> fst (main ''/h'' False (fst (snd (main ''/h'' False fs_digestless)))) = Some FileExistsError
   \<and> symlinks_of (fst (snd (main ''/h'' False (fst (snd (main ''/h'' False fs_digestless))))))
       = [(''/h/.local/share/ramalama/models/ollama/llama3:8b'', ''/h/.ollama/models/blobs'')]"
proof -
  let ?fs1 = "fs_digestless @
          [(''/h/.local/share/ramalama/models/ollama/llama3:8b'', SymLink ''/h/.ollama/models/blobs''),
           (''/h/.local/share/ramalama/models/ollama/llama3:latest'',
              SymLink ''/h/.ollama/models/blobs/sha256-abc123'')]"
  let ?fs2 = "fs_digestless @
          [(''/h/.local/share/ramalama/models/ollama/llama3:8b'', SymLink ''/h/.ollama/models/blobs'')]"
  have r1: "main ''/h'' False fs_digestless
     = (None, ?fs1,
        [ModelSymlinked ''/h/.local/share/ramalama/models/ollama/llama3:8b'' ''/h/.ollama/models/blobs'',
         ModelSymlinked ''/h/.local/share/ramalama/models/ollama/llama3:latest''
           ''/h/.ollama/models/blobs/sha256-abc123''])"
    by code_simp
  have r2: "main ''/h'' False ?fs1
     = (Some FileExistsError, ?fs2,
        [DeleteSymlink ''/h/.local/share/ramalama/models/ollama/llama3:latest''
           ''/h/.ollama/models/blobs/sha256-abc123''])"
    by code_simp
  have s1: "symlinks_of ?fs1
       = [(''/h/.local/share/ramalama/models/ollama/llama3:8b'', ''/h/.ollama/models/blobs''),
          (''/h/.local/share/ramalama/models/ollama/llama3:latest'',
           ''/h/.ollama/models/blobs/sha256-abc123'')]"
    by code_simp
  have s2: "symlinks_of ?fs2
       = [(''/h/.local/share/ramalama/models/ollama/llama3:8b'', ''/h/.ollama/models/blobs'')]"
    by code_simp
  show ?thesis
    unfolding r1 fst_conv snd_conv r2 s1 s2 by (intro conjI refl)
qed



section \<open>Properties of the walk\<close>

lemma walk_loop_append: "walk_loop fs (xs @ ys) = walk_loop fs xs @ walk_loop fs ys"
proof (induction fs xs arbitrary: ys rule: walk_loop.induct)
  case (1 fs)
  then show ?case by simp
next
  case (2 fs dirpath stack)
  show ?case
  proof (cases "scandir fs dirpath")
    case None
    with 2(1) show ?thesis by simp
  next
    case (Some names)
    with 2(2)[OF Some, of ys] show ?thesis by simp
  qed
qed

lemma walk_loop_member:
  "c \<in> set cs \<Longrightarrow> set (walk_loop fs [c]) \<subseteq> set (walk_loop fs cs)"
proof (induction cs)
  case Nil
  then show ?case by simp
next
  case (Cons a cs)
  have "walk_loop fs (a # cs) = walk_loop fs [a] @ walk_loop fs cs"
    using walk_loop_append[of fs "[a]" cs] by simp
  with Cons show ?case by auto
qed

lemma is_dir_Directory: "lstat fs p = Some Directory \<Longrightarrow> is_dir fs p"
  by (simp add: is_dir_def os_stat_def)

lemma not_islink_Directory: "lstat fs p = Some Directory \<Longrightarrow> \<not> os_path_islink fs p"
  by (simp add: os_path_islink_def)

lemma is_dir_not_islink:
  "is_dir fs p \<Longrightarrow> \<not> os_path_islink fs p \<Longrightarrow> lstat fs p = Some Directory"
  by (auto simp: is_dir_def os_stat_def os_path_islink_def split: option.splits node.splits)

lemma walk_loop_single:
  "is_dir fs d \<Longrightarrow>
   walk_loop fs [d] = map (os_path_join d) (walk_files fs d (listdir fs d))
                      @ walk_loop fs (walk_push fs d (walk_dirs fs d (listdir fs d)))"
  by (simp add: scandir_def)

lemma walk_loop_not_dir: "\<not> is_dir fs d \<Longrightarrow> walk_loop fs [d] = []"
  by (simp add: scandir_def)

lemma walk_push_member:
  "n \<in> set (listdir fs d) \<Longrightarrow> lstat fs (os_path_join d n) = Some Directory
   \<Longrightarrow> os_path_join d n \<in> set (walk_push fs d (walk_dirs fs d (listdir fs d)))"
  by (auto simp: walk_push_def walk_dirs_def is_dir_Directory not_islink_Directory)

lemma walked_is_dir: "walked fs root d \<Longrightarrow> is_dir fs root \<Longrightarrow> is_dir fs d"
  by (induction rule: walked.induct) (auto simp: is_dir_Directory)

lemma walked_subset:
  "walked fs root d \<Longrightarrow> is_dir fs root \<Longrightarrow> set (walk_loop fs [d]) \<subseteq> set (walk_loop fs [root])"
proof (induction rule: walked.induct)
  case walked_root
  then show ?case by simp
next
  case (walked_sub d n)
  have dd: "is_dir fs d" using walked_sub.hyps(1) walked_sub.prems by (rule walked_is_dir)
  have "set (walk_loop fs [os_path_join d n])
        \<subseteq> set (walk_loop fs (walk_push fs d (walk_dirs fs d (listdir fs d))))"
    by (rule walk_loop_member) (rule walk_push_member[OF walked_sub.hyps(2,3)])
  also have "\<dots> \<subseteq> set (walk_loop fs [d])"
    unfolding walk_loop_single[OF dd] by simp
  also have "\<dots> \<subseteq> set (walk_loop fs [root])"
    using walked_sub.IH walked_sub.prems by simp
  finally show ?case .
qed

lemma get_filenames_complete:
  assumes "is_dir fs folder" "walked fs folder d" "n \<in> set (listdir fs d)"
    "\<not> is_dir fs (os_path_join d n)"
  shows "os_path_join d n \<in> set (get_filenames fs folder)"
proof -
  have dd: "is_dir fs d" using assms(2,1) by (rule walked_is_dir)
  have "os_path_join d n \<in> set (walk_loop fs [d])"
    unfolding walk_loop_single[OF dd] using assms(3,4) by (simp add: walk_files_def)
  then show ?thesis
    using walked_subset[OF assms(2,1)] by (auto simp: get_filenames_def)
qed


section \<open>Properties of the reset\<close>

subsection \<open>Removing paths\<close>

lemma rm_empty: "rm {} fs = fs"
  by (simp add: rm_def)

lemma rm_rm: "rm S (rm T fs) = rm (S \<union> T) fs"
  by (auto simp: rm_def intro: filter_cong)

lemma unlink_rm: "os_unlink (rm S fs) p = rm (insert p S) fs"
  by (auto simp: rm_def os_unlink_def intro: filter_cong)

lemma lstat_rm: "lstat (rm S fs) p = (if p \<in> S then None else lstat fs p)"
  unfolding lstat_def rm_def by (induction fs) auto

lemma keys_rm: "fst ` set (rm S fs) = fst ` set fs - S"
  by (auto simp: rm_def)

lemma linkto_rm: "linkto (rm S fs) b p \<longleftrightarrow> p \<notin> S \<and> linkto fs b p"
  by (simp add: linkto_def lstat_rm)

lemma reset_file_rm:
  "fst (reset_file b d n (rm S fs, out))
   = rm (S \<union> {p. p = os_path_join d n \<and> linkto fs b p}) fs"
proof -
  let ?p = "os_path_join d n"
  show ?thesis
  proof (cases "linkto (rm S fs) b ?p")
    case True
    then have "?p \<notin> S" "linkto fs b ?p" by (simp_all add: linkto_rm)
    moreover from True have "fst (reset_file b d n (rm S fs, out)) = os_unlink (rm S fs) ?p"
      by (auto simp: reset_file_def Let_def linkto_def split: option.splits node.splits)
    moreover have "S \<union> {p. p = ?p \<and> linkto fs b p} = insert ?p S" using calculation(2) by auto
    ultimately show ?thesis by (simp add: unlink_rm)
  next
    case False
    then have "fst (reset_file b d n (rm S fs, out)) = rm S fs"
      by (auto simp: reset_file_def Let_def linkto_def split: option.splits node.splits)
    moreover have "rm (S \<union> {p. p = ?p \<and> linkto fs b p}) fs = rm S fs"
    proof (cases "?p \<in> S")
      case True
      then have "S \<union> {p. p = ?p \<and> linkto fs b p} = S" by auto
      then show ?thesis by simp
    next
      case False
      with \<open>\<not> linkto (rm S fs) b ?p\<close> have "\<not> linkto fs b ?p" by (simp add: linkto_rm)
      then have "S \<union> {p. p = ?p \<and> linkto fs b p} = S" by auto
      then show ?thesis by simp
    qed
    ultimately show ?thesis by simp
  qed
qed

lemma fold_reset_file_rm:
  "fst (fold (reset_file b d) ns (rm S fs, out))
   = rm (S \<union> {p. \<exists>n \<in> set ns. p = os_path_join d n \<and> linkto fs b p}) fs"
proof (induction ns arbitrary: S out)
  case Nil
  then show ?case by simp
next
  case (Cons n ns)
  let ?S' = "S \<union> {p. p = os_path_join d n \<and> linkto fs b p}"
  obtain out' where step: "reset_file b d n (rm S fs, out) = (rm ?S' fs, out')"
    using reset_file_rm[of b d n S fs out] by (cases "reset_file b d n (rm S fs, out)") auto
  have "fst (fold (reset_file b d) (n # ns) (rm S fs, out))
        = fst (fold (reset_file b d) ns (rm ?S' fs, out'))"
    by (simp add: step)
  also have "\<dots> = rm (?S' \<union> {p. \<exists>n \<in> set ns. p = os_path_join d n \<and> linkto fs b p}) fs"
    by (rule Cons.IH)
  also have "?S' \<union> {p. \<exists>n \<in> set ns. p = os_path_join d n \<and> linkto fs b p}
             = S \<union> {p. \<exists>m \<in> set (n # ns). p = os_path_join d m \<and> linkto fs b p}"
    by auto
  finally show ?case .
qed


subsection \<open>Removing links that are not directories changes no directory\<close>

lemma stat_follow_mono:
  "stat_follow n fs p = Inr x \<Longrightarrow> n \<le> m \<Longrightarrow> stat_follow m fs p = Inr x"
proof (induction n arbitrary: m p)
  case 0
  then show ?case by simp
next
  case (Suc n)
  then obtain m' where m: "m = Suc m'" "n \<le> m'" by (cases m) auto
  show ?case
  proof (cases "lstat fs p")
    case None
    with Suc.prems show ?thesis by simp
  next
    case (Some nd)
    with Suc m show ?thesis by (cases nd) auto
  qed
qed

lemma stat_follow_rm_sound:
  "stat_follow n (rm S fs) q = Inr x \<Longrightarrow> stat_follow n fs q = Inr x"
proof (induction n arbitrary: q)
  case 0
  then show ?case by simp
next
  case (Suc n)
  show ?case
  proof (cases "q \<in> S")
    case True
    with Suc.prems show ?thesis by (simp add: lstat_rm)
  next
    case False
    then have l: "lstat (rm S fs) q = lstat fs q" by (simp add: lstat_rm)
    show ?thesis
    proof (cases "lstat fs q")
      case None
      with Suc.prems l show ?thesis by simp
    next
      case (Some nd)
      with Suc l show ?thesis by (cases nd) auto
    qed
  qed
qed

lemma stat_follow_rm_complete:
  assumes nd: "\<And>p. p \<in> S \<Longrightarrow> \<not> is_dir fs p"
  shows "n \<le> Suc max_symlinks \<Longrightarrow> stat_follow n fs q = Inr Directory
         \<Longrightarrow> stat_follow n (rm S fs) q = Inr Directory"
proof (induction n arbitrary: q)
  case 0
  then show ?case by simp
next
  case (Suc n)
  have "is_dir fs q"
    using stat_follow_mono[OF Suc.prems(2) Suc.prems(1)] by (simp add: is_dir_def os_stat_def)
  then have "q \<notin> S" using nd by blast
  then have l: "lstat (rm S fs) q = lstat fs q" by (simp add: lstat_rm)
  show ?case
  proof (cases "lstat fs q")
    case None
    with Suc.prems show ?thesis by simp
  next
    case (Some x)
    with Suc l show ?thesis by (cases x) auto
  qed
qed

lemma is_dir_rm:
  assumes "\<And>p. p \<in> S \<Longrightarrow> \<not> is_dir fs p"
  shows "is_dir (rm S fs) q = is_dir fs q"
  unfolding is_dir_def os_stat_def
  using stat_follow_rm_sound[where n = "Suc max_symlinks" and S = S and fs = fs and q = q
      and x = Directory]
    stat_follow_rm_complete[where n = "Suc max_symlinks" and S = S and fs = fs and q = q] assms
  by blast

lemma join_listdir:
  "n \<in> set (listdir fs d) \<Longrightarrow> os_path_join d n = os_path_join d [] @ n"
  by (simp add: set_listdir join_child)

lemma listdir_key: "n \<in> set (listdir fs d) \<Longrightarrow> os_path_join d n \<in> fst ` set fs"
  using join_listdir[of n fs d] by (simp add: set_listdir)

lemma listdir_lstat: "n \<in> set (listdir fs d) \<Longrightarrow> lstat fs (os_path_join d n) \<noteq> None"
  using listdir_key[of n fs d] by (simp add: lstat_def map_of_eq_None_iff)

lemma set_listdir_rm:
  "set (listdir (rm S fs) d) = {n \<in> set (listdir fs d). os_path_join d n \<notin> S}"
proof (rule set_eqI)
  fix n
  show "n \<in> set (listdir (rm S fs) d) \<longleftrightarrow> n \<in> {n \<in> set (listdir fs d). os_path_join d n \<notin> S}"
  proof (cases "n \<noteq> [] \<and> CHR ''/'' \<notin> set n")
    case True
    then have "os_path_join d n = os_path_join d [] @ n" by (simp add: join_child)
    with True show ?thesis by (simp add: set_listdir keys_rm)
  next
    case False
    then show ?thesis by (auto simp: set_listdir)
  qed
qed

subsection \<open>What the walk removes\<close>

lemma doomed_in_not_dir: "p \<in> doomed_in fs b d \<Longrightarrow> \<not> is_dir fs p"
  by (auto simp: doomed_in_def)

lemma doomed_not_dir: "p \<in> doomed fs b r \<Longrightarrow> \<not> is_dir fs p"
  by (auto simp: doomed_def doomed_in_not_dir split: if_splits)

lemma doomed_stack_not_dir: "p \<in> doomed_stack fs b st \<Longrightarrow> \<not> is_dir fs p"
  by (auto simp: doomed_stack_def doomed_not_dir)

lemma walked_trans: "walked fs d e \<Longrightarrow> walked fs r d \<Longrightarrow> walked fs r e"
  by (induction rule: walked.induct) (auto intro: walked.intros)

lemma walked_first:
  "walked fs r e \<Longrightarrow>
   e = r \<or> (\<exists>n \<in> set (listdir fs r). lstat fs (os_path_join r n) = Some Directory
              \<and> walked fs (os_path_join r n) e)"
proof (induction rule: walked.induct)
  case walked_root
  then show ?case by simp
next
  case (walked_sub d n)
  from walked_sub.IH show ?case
  proof
    assume "d = r"
    with walked_sub.hyps(2,3) show ?thesis by (auto intro: walked.intros)
  next
    assume "\<exists>m \<in> set (listdir fs r). lstat fs (os_path_join r m) = Some Directory
              \<and> walked fs (os_path_join r m) d"
    then obtain m where m: "m \<in> set (listdir fs r)" "lstat fs (os_path_join r m) = Some Directory"
      "walked fs (os_path_join r m) d" by blast
    from m(3) walked_sub.hyps(2,3) have "walked fs (os_path_join r m) (os_path_join d n)"
      by (rule walked.walked_sub)
    with m(1,2) show ?thesis by blast
  qed
qed

lemma walked_rm:
  assumes "\<And>p. p \<in> S \<Longrightarrow> \<not> is_dir fs p"
  shows "walked (rm S fs) r d \<longleftrightarrow> walked fs r d"
proof
  assume "walked (rm S fs) r d"
  then show "walked fs r d"
  proof (induction rule: walked.induct)
    case walked_root
    show ?case by (rule walked.walked_root)
  next
    case (walked_sub d n)
    from walked_sub.hyps(2) have "n \<in> set (listdir fs d)" by (simp add: set_listdir_rm)
    moreover from walked_sub.hyps(3) have "lstat fs (os_path_join d n) = Some Directory"
      by (simp add: lstat_rm split: if_splits)
    ultimately show ?case using walked_sub.IH by (auto intro: walked.walked_sub)
  qed
next
  assume "walked fs r d"
  then show "walked (rm S fs) r d"
  proof (induction rule: walked.induct)
    case walked_root
    show ?case by (rule walked.walked_root)
  next
    case (walked_sub d n)
    have "is_dir fs (os_path_join d n)" using walked_sub.hyps(3) by (rule is_dir_Directory)
    then have notin: "os_path_join d n \<notin> S" using assms by blast
    then have "n \<in> set (listdir (rm S fs) d)" using walked_sub.hyps(2) by (simp add: set_listdir_rm)
    moreover have "lstat (rm S fs) (os_path_join d n) = Some Directory"
      using notin walked_sub.hyps(3) by (simp add: lstat_rm)
    ultimately show ?case using walked_sub.IH by (auto intro: walked.walked_sub)
  qed
qed

lemma doomed_in_rm:
  assumes "\<And>p. p \<in> S \<Longrightarrow> \<not> is_dir fs p"
  shows "doomed_in (rm S fs) b d = doomed_in fs b d - S"
  unfolding doomed_in_def
  by (auto simp: set_listdir_rm is_dir_rm[OF assms] linkto_rm)

lemma doomed_rm:
  assumes "\<And>p. p \<in> S \<Longrightarrow> \<not> is_dir fs p"
  shows "doomed (rm S fs) b r = doomed fs b r - S"
  unfolding doomed_def
  by (auto simp: is_dir_rm[OF assms] walked_rm[OF assms] doomed_in_rm[OF assms])

lemma doomed_stack_rm:
  assumes "\<And>p. p \<in> S \<Longrightarrow> \<not> is_dir fs p"
  shows "doomed_stack (rm S fs) b st = doomed_stack fs b st - S"
  unfolding doomed_stack_def by (auto simp: doomed_rm[OF assms])

lemma doomed_stack_append:
  "doomed_stack fs b (xs @ ys) = doomed_stack fs b xs \<union> doomed_stack fs b ys"
  by (auto simp: doomed_stack_def)

lemma doomed_stack_Cons:
  "doomed_stack fs b (x # xs) = doomed fs b x \<union> doomed_stack fs b xs"
  by (auto simp: doomed_stack_def)

lemma set_walk_push_rm:
  assumes "\<And>p. p \<in> S \<Longrightarrow> \<not> is_dir fs p"
  shows "set (walk_push (rm S fs) d (walk_dirs fs d (listdir fs d)))
         = {p. \<exists>n \<in> set (listdir fs d). p = os_path_join d n \<and> lstat fs p = Some Directory}"
  (is "?L = ?R")
proof (rule set_eqI)
  fix p
  show "p \<in> ?L \<longleftrightarrow> p \<in> ?R"
  proof
    assume "p \<in> ?L"
    then obtain n where n: "n \<in> set (listdir fs d)" "p = os_path_join d n" "is_dir fs p"
      "\<not> os_path_islink (rm S fs) p"
      by (auto simp: walk_push_def walk_dirs_def)
    from n(3) assms have "p \<notin> S" by blast
    then have "\<not> os_path_islink fs p" using n(4) by (simp add: os_path_islink_def lstat_rm)
    with n(3) have "lstat fs p = Some Directory" by (rule is_dir_not_islink)
    with n(1,2) show "p \<in> ?R" by blast
  next
    assume "p \<in> ?R"
    then obtain n where n: "n \<in> set (listdir fs d)" "p = os_path_join d n"
      "lstat fs p = Some Directory" by blast
    have d: "is_dir fs p" using n(3) by (rule is_dir_Directory)
    with assms have "p \<notin> S" by blast
    then have "\<not> os_path_islink (rm S fs) p"
      using n(3) by (simp add: os_path_islink_def lstat_rm)
    with n d show "p \<in> ?L" by (auto simp: walk_push_def walk_dirs_def)
  qed
qed

lemma doomed_unfold:
  assumes "is_dir fs d"
  shows "doomed fs b d
         = doomed_in fs b d
           \<union> (\<Union>c \<in> {p. \<exists>n \<in> set (listdir fs d). p = os_path_join d n \<and> lstat fs p = Some Directory}.
                 doomed fs b c)"
  (is "?L = ?R")
proof (rule set_eqI)
  fix p
  show "p \<in> ?L \<longleftrightarrow> p \<in> ?R"
  proof
    assume "p \<in> ?L"
    then obtain e where e: "walked fs d e" "p \<in> doomed_in fs b e"
      using assms by (auto simp: doomed_def)
    from walked_first[OF e(1)] show "p \<in> ?R"
    proof
      assume "e = d"
      with e(2) show ?thesis by simp
    next
      assume "\<exists>n \<in> set (listdir fs d). lstat fs (os_path_join d n) = Some Directory
                \<and> walked fs (os_path_join d n) e"
      then obtain n where n: "n \<in> set (listdir fs d)" "lstat fs (os_path_join d n) = Some Directory"
        "walked fs (os_path_join d n) e" by blast
      have "is_dir fs (os_path_join d n)" using n(2) by (rule is_dir_Directory)
      with n(3) e(2) have "p \<in> doomed fs b (os_path_join d n)" by (auto simp: doomed_def)
      with n(1,2) show ?thesis by blast
    qed
  next
    assume "p \<in> ?R"
    then show "p \<in> ?L"
    proof
      assume "p \<in> doomed_in fs b d"
      then show ?thesis using assms by (auto simp: doomed_def intro: walked.walked_root)
    next
      assume "p \<in> (\<Union>c \<in> {p. \<exists>n \<in> set (listdir fs d). p = os_path_join d n \<and> lstat fs p = Some Directory}.
                 doomed fs b c)"
      then obtain n e where n: "n \<in> set (listdir fs d)" "lstat fs (os_path_join d n) = Some Directory"
        and e: "walked fs (os_path_join d n) e" "p \<in> doomed_in fs b e"
        by (auto simp: doomed_def split: if_splits)
      have "walked fs d (os_path_join d n)"
        using walked.walked_root n by (rule walked.walked_sub)
      with e(1) have "walked fs d e" by (rule walked_trans)
      with e(2) assms show ?thesis by (auto simp: doomed_def)
    qed
  qed
qed


lemma doomed_in_files:
  "{p. \<exists>n \<in> set (walk_files fs d (listdir fs d)). p = os_path_join d n \<and> linkto fs b p}
   = doomed_in fs b d"
  by (auto simp: doomed_in_def walk_files_def)

lemma fold_reset_file_doomed:
  "fst (fold (reset_file b d) (walk_files (fst s) d (listdir (fst s) d)) s)
   = rm (doomed_in (fst s) b d) (fst s)"
proof -
  have "s = (rm {} (fst s), snd s)" by (simp add: rm_empty)
  then have "fst (fold (reset_file b d) (walk_files (fst s) d (listdir (fst s) d)) s)
        = fst (fold (reset_file b d) (walk_files (fst s) d (listdir (fst s) d)) (rm {} (fst s), snd s))"
    by simp
  also have "\<dots> = rm ({} \<union> {p. \<exists>n \<in> set (walk_files (fst s) d (listdir (fst s) d)).
                         p = os_path_join d n \<and> linkto (fst s) b p}) (fst s)"
    by (rule fold_reset_file_rm)
  also have "\<dots> = rm (doomed_in (fst s) b d) (fst s)"
    using doomed_in_files[of "fst s" d b] by simp
  finally show ?thesis .
qed

lemma reset_loop_rm:
  "fst (reset_loop b stack s) = rm (doomed_stack (fst s) b stack) (fst s)"
proof (induction b stack s rule: reset_loop.induct)
  case (1 b s)
  show ?case by (simp add: doomed_stack_def rm_empty)
next
  case (2 b d stack s)
  show ?case
  proof (cases "scandir (fst s) d")
    case None
    then have "\<not> is_dir (fst s) d" by (simp add: scandir_def split: if_splits)
    then have "doomed_stack (fst s) b (d # stack) = doomed_stack (fst s) b stack"
      by (simp add: doomed_stack_Cons doomed_def)
    with 2(1)[OF None] None show ?thesis by simp
  next
    case (Some names)
    then have dir: "is_dir (fst s) d" and names: "names = listdir (fst s) d"
      by (auto simp: scandir_def split: if_splits)
    let ?fs = "fst s"
    let ?D0 = "doomed_in ?fs b d"
    let ?s' = "fold (reset_file b d) (walk_files ?fs d (listdir ?fs d)) s"
    let ?push = "walk_push (fst ?s') d (walk_dirs ?fs d (listdir ?fs d))"
    from Some names have Some: "scandir ?fs d = Some (listdir ?fs d)" by simp
    have fs': "fst ?s' = rm ?D0 ?fs"
      by (rule fold_reset_file_doomed)
    have nd: "\<And>p. p \<in> ?D0 \<Longrightarrow> \<not> is_dir ?fs p" by (rule doomed_in_not_dir)
    have push: "set ?push
         = {p. \<exists>n \<in> set (listdir ?fs d). p = os_path_join d n \<and> lstat ?fs p = Some Directory}"
      unfolding fs' by (rule set_walk_push_rm[OF nd])
    have unfold: "doomed ?fs b d = ?D0 \<union> doomed_stack ?fs b ?push"
      unfolding doomed_stack_def push by (rule doomed_unfold[OF dir])
    have "fst (reset_loop b (d # stack) s) = fst (reset_loop b (?push @ stack) ?s')"
      using Some by (simp add: Let_def)
    also have "\<dots> = rm (doomed_stack (fst ?s') b (?push @ stack)) (fst ?s')"
      by (rule 2(2)[OF Some refl refl refl])
    also have "\<dots> = rm ((doomed_stack ?fs b (?push @ stack) - ?D0) \<union> ?D0) ?fs"
      unfolding fs' by (simp add: doomed_stack_rm[OF nd] rm_rm)
    also have "(doomed_stack ?fs b (?push @ stack) - ?D0) \<union> ?D0
               = doomed_stack ?fs b (d # stack)"
      unfolding doomed_stack_append doomed_stack_Cons unfold by blast
    finally show ?thesis .
  qed
qed

lemma reset_loop_noop:
  "doomed_stack (fst s) b stack = {} \<Longrightarrow> reset_loop b stack s = s"
proof (induction b stack s rule: reset_loop.induct)
  case (1 b s)
  show ?case by simp
next
  case (2 b d stack s)
  show ?case
  proof (cases "scandir (fst s) d")
    case None
    from 2(3) have "doomed_stack (fst s) b stack = {}" by (simp add: doomed_stack_Cons)
    with 2(1)[OF None] None show ?thesis by simp
  next
    case (Some names)
    then have dir: "is_dir (fst s) d" and names: "names = listdir (fst s) d"
      by (auto simp: scandir_def split: if_splits)
    let ?fs = "fst s"
    from Some names have Some: "scandir ?fs d = Some (listdir ?fs d)" by simp
    from 2(3) have e: "doomed ?fs b d = {}" "doomed_stack ?fs b stack = {}"
      by (simp_all add: doomed_stack_Cons)
    have D0: "doomed_in ?fs b d = {}"
      using e(1) dir by (auto simp: doomed_def intro: walked.walked_root)
    have step: "reset_file b d n s = s" if "n \<in> set (walk_files ?fs d (listdir ?fs d))" for n
    proof -
      from that have n: "n \<in> set (listdir ?fs d)" "\<not> is_dir ?fs (os_path_join d n)"
        by (simp_all add: walk_files_def)
      with D0 have "\<not> linkto ?fs b (os_path_join d n)" by (auto simp: doomed_in_def)
      then show ?thesis
        by (auto simp: reset_file_def Let_def linkto_def split: option.splits node.splits)
    qed
    have fold: "fold (reset_file b d) ns s = s"
      if "set ns \<subseteq> set (walk_files ?fs d (listdir ?fs d))" for ns
      using that by (induction ns) (simp_all add: step)
    let ?s' = "fold (reset_file b d) (walk_files ?fs d (listdir ?fs d)) s"
    have s': "?s' = s" by (rule fold) simp
    let ?push = "walk_push (fst ?s') d (walk_dirs ?fs d (listdir ?fs d))"
    have rm0: "?fs = rm {} ?fs" by (simp add: rm_empty)
    have push: "set ?push
         = {p. \<exists>n \<in> set (listdir ?fs d). p = os_path_join d n \<and> lstat ?fs p = Some Directory}"
      unfolding s' by (subst rm0, rule set_walk_push_rm) simp
    have "doomed_stack ?fs b ?push \<subseteq> doomed ?fs b d"
      unfolding doomed_stack_def push using doomed_unfold[OF dir, of b] by blast
    with e have "doomed_stack (fst ?s') b (?push @ stack) = {}"
      unfolding s' by (simp add: doomed_stack_append)
    from 2(2)[OF Some refl refl refl this] have "reset_loop b (?push @ stack) ?s' = ?s'" .
    then have "reset_loop b (d # stack) s = ?s'"
      using Some by (simp add: Let_def)
    with s' show ?thesis by simp
  qed
qed

lemma reset_symlinks_rm:
  "fst (reset_symlinks fs directory b) = rm (doomed fs b directory) fs"
  unfolding reset_symlinks_def using reset_loop_rm[of b "[directory]" "(fs, [])"]
  by (simp add: doomed_stack_def)

text \<open>
  C3: for every entry found by the recursive walk of the target directory, reset deletes
  the entry if and only if it is a symbolic link whose stored target starts with the
  blob-store path. In \<open>fs_dir_link\<close> the entry \<open>llama3:8b\<close> is found by the walk and is a link
  whose target starts with the blob-store path, and it is still there after the reset:
  the link resolves to a directory, \<open>os.walk\<close> reports it among the directories, and the
  loop of \<open>reset_symlinks\<close> reads the files only.
\<close>

theorem reset_keeps_link_to_blob_directory:
  "walk_dirs fs_dir_link ''/h/.local/share/ramalama/models/ollama''
       (listdir fs_dir_link ''/h/.local/share/ramalama/models/ollama'') = [''llama3:8b'']
   \<and> walk_files fs_dir_link ''/h/.local/share/ramalama/models/ollama''
       (listdir fs_dir_link ''/h/.local/share/ramalama/models/ollama'') = []
   \<and> ''llama3:8b'' \<in> set (listdir fs_dir_link ''/h/.local/share/ramalama/models/ollama'')
   \<and> lstat fs_dir_link ''/h/.local/share/ramalama/models/ollama/llama3:8b''
       = Some (SymLink ''/h/.ollama/models/blobs'')
   \<and> prefix ''/h/.ollama/models/blobs'' ''/h/.ollama/models/blobs''
   \<and> lstat (fst (reset_symlinks fs_dir_link ''/h/.local/share/ramalama/models/ollama''
                   ''/h/.ollama/models/blobs''))
        ''/h/.local/share/ramalama/models/ollama/llama3:8b''
       = Some (SymLink ''/h/.ollama/models/blobs'')"
  by code_simp

text \<open>A second reset right after a first one removes nothing and prints nothing.\<close>

lemma reset_symlinks_idempotent:
  "reset_symlinks (fst (reset_symlinks fs directory blobs_dir)) directory blobs_dir
     = (fst (reset_symlinks fs directory blobs_dir), [])"
proof -
  let ?fs1 = "fst (reset_symlinks fs directory blobs_dir)"
  have nd: "\<And>p. p \<in> doomed fs blobs_dir directory \<Longrightarrow> \<not> is_dir fs p"
    by (rule doomed_not_dir)
  have "doomed ?fs1 blobs_dir directory = {}"
    unfolding reset_symlinks_rm by (simp add: doomed_rm[OF nd])
  then have "doomed_stack (fst (?fs1, [])) blobs_dir [directory] = {}"
    by (simp add: doomed_stack_def)
  then have "reset_loop blobs_dir [directory] (?fs1, []) = (?fs1, [])"
    by (rule reset_loop_noop)
  then show ?thesis
    by (simp add: reset_symlinks_def)
qed

text \<open>
  C4: after a first reset no link in the target directory has a target that starts with
  the blob-store path, so that a second reset deletes nothing. Take the target directory
  as one sync of \<open>fs_digestless\<close> leaves it, with the links \<open>llama3:8b\<close> to the blob directory
  and \<open>llama3:latest\<close> to a blob. A run with \<open>--reset\<close> removes the second link only; the
  first, whose target is the blob-store path itself, is left, and a second \<open>--reset\<close> run
  finds nothing to delete although that link is still there.
\<close>

theorem reset_leaves_link_with_blob_prefix:
  "main ''/h'' True
     (fs_digestless @
        [(''/h/.local/share/ramalama/models/ollama/llama3:8b'', SymLink ''/h/.ollama/models/blobs''),
         (''/h/.local/share/ramalama/models/ollama/llama3:latest'',
            SymLink ''/h/.ollama/models/blobs/sha256-abc123'')])
     = (None,
        fs_digestless @
          [(''/h/.local/share/ramalama/models/ollama/llama3:8b'', SymLink ''/h/.ollama/models/blobs'')],
        [DeleteSymlink ''/h/.local/share/ramalama/models/ollama/llama3:latest''
           ''/h/.ollama/models/blobs/sha256-abc123''])
   \<and> symlinks_of
         (fs_digestless @
            [(''/h/.local/share/ramalama/models/ollama/llama3:8b'', SymLink ''/h/.ollama/models/blobs'')])
       = [(''/h/.local/share/ramalama/models/ollama/llama3:8b'', ''/h/.ollama/models/blobs'')]
   \<and> prefix (path_str (ollama_blobs_dir ''/h'')) ''/h/.ollama/models/blobs''
   \<and> main ''/h'' True
         (fs_digestless @
            [(''/h/.local/share/ramalama/models/ollama/llama3:8b'', SymLink ''/h/.ollama/models/blobs'')])
       = (None,
          fs_digestless @
            [(''/h/.local/share/ramalama/models/ollama/llama3:8b'', SymLink ''/h/.ollama/models/blobs'')],
          [])"
  by code_simp

text \<open>
  C9, as amended: when the manifests root is not a directory the scan fails inside
  \<open>os.walk\<close>, which ignores the error: \<open>get_filenames\<close> returns the empty list and the run
  ends after the reset without an exception. For an existing root \<open>get_filenames\<close> returns
  the path of every regular file below it, whatever its name.
\<close>

theorem get_filenames_lists_regular_files:
  "(\<not> is_dir fs folder \<longrightarrow> get_filenames fs folder = [])
   \<and> (\<not> is_dir fs (path_str (ollama_manifests_dir home))
        \<longrightarrow> main home False fs
            = (None, reset_symlinks fs (path_str (ramalama_dir home))
                       (path_str (ollama_blobs_dir home))))
   \<and> (is_dir fs folder \<and> walked fs folder d \<and> n \<in> set (listdir fs d)
        \<and> lstat fs (os_path_join d n) = Some (RegFile c)
        \<longrightarrow> os_path_join d n \<in> set (get_filenames fs folder))"
proof (intro conjI impI)
  assume "\<not> is_dir fs folder"
  then show "get_filenames fs folder = []"
    unfolding get_filenames_def by (rule walk_loop_not_dir)
next
  let ?M = "path_str (ollama_manifests_dir home)"
  let ?R = "path_str (ramalama_dir home)"
  let ?B = "path_str (ollama_blobs_dir home)"
  assume m: "\<not> is_dir fs ?M"
  have nd: "\<And>p. p \<in> doomed fs ?B ?R \<Longrightarrow> \<not> is_dir fs p" by (rule doomed_not_dir)
  have "\<not> is_dir (fst (reset_symlinks fs ?R ?B)) ?M"
    unfolding reset_symlinks_rm using m by (simp add: is_dir_rm[OF nd])
  then have "get_filenames (fst (reset_symlinks fs ?R ?B)) ?M = []"
    unfolding get_filenames_def by (rule walk_loop_not_dir)
  then show "main home False fs = (None, reset_symlinks fs ?R ?B)"
    by (simp add: main_def Let_def)
next
  assume a: "is_dir fs folder \<and> walked fs folder d \<and> n \<in> set (listdir fs d)
        \<and> lstat fs (os_path_join d n) = Some (RegFile c)"
  then have "\<not> is_dir fs (os_path_join d n)" by (simp add: is_dir_def os_stat_def)
  with a show "os_path_join d n \<in> set (get_filenames fs folder)"
    by (auto intro: get_filenames_complete)
qed

theorem get_filenames_lists_regular_files_witness:
  "\<not> is_dir fs_fresh_home ''/h/.ollama/models/manifests/registry.ollama.ai''
   \<and> get_filenames fs_fresh_home ''/h/.ollama/models/manifests/registry.ollama.ai'' = []
   \<and> main ''/h'' False fs_fresh_home
       = (None, reset_symlinks fs_fresh_home ''/h/.local/share/ramalama/models/ollama''
                  ''/h/.ollama/models/blobs'')
   \<and> is_dir fs_missing_blob ''/h/.ollama/models/manifests/registry.ollama.ai''
   \<and> walked fs_missing_blob ''/h/.ollama/models/manifests/registry.ollama.ai''
        ''/h/.ollama/models/manifests/registry.ollama.ai/library/llama3''
   \<and> ''latest'' \<in> set (listdir fs_missing_blob
                          ''/h/.ollama/models/manifests/registry.ollama.ai/library/llama3'')
   \<and> lstat fs_missing_blob ''/h/.ollama/models/manifests/registry.ollama.ai/library/llama3/latest''
       = Some (RegFile (Parsed (manifest_of ''sha256:abc123'')))
   \<and> ''/h/.ollama/models/manifests/registry.ollama.ai/library/llama3/latest''
       \<in> set (get_filenames fs_missing_blob ''/h/.ollama/models/manifests/registry.ollama.ai'')"
proof -
  let ?M = "''/h/.ollama/models/manifests/registry.ollama.ai''"
  let ?L = "''/h/.ollama/models/manifests/registry.ollama.ai/library''"
  let ?D = "''/h/.ollama/models/manifests/registry.ollama.ai/library/llama3''"
  let ?F = "''/h/.ollama/models/manifests/registry.ollama.ai/library/llama3/latest''"
  have p: "path_str (ollama_manifests_dir ''/h'') = ?M"
    "path_str (ramalama_dir ''/h'') = ''/h/.local/share/ramalama/models/ollama''"
    "path_str (ollama_blobs_dir ''/h'') = ''/h/.ollama/models/blobs''"
    by code_simp+
  have 0: "\<not> is_dir fs_fresh_home ?M" by code_simp
  have 1: "is_dir fs_missing_blob ?M" by code_simp
  have jl: "os_path_join ?M ''library'' = ?L" by (simp add: os_path_join_def)
  have jd: "os_path_join ?L ''llama3'' = ?D" by (simp add: os_path_join_def)
  have jf: "os_path_join ?D ''latest'' = ?F" by (simp add: os_path_join_def)
  have "walked fs_missing_blob ?M (os_path_join ?M ''library'')"
    by (rule walked_sub[OF walked_root]; code_simp)
  then have wl: "walked fs_missing_blob ?M ?L" unfolding jl .
  have "walked fs_missing_blob ?M (os_path_join ?L ''llama3'')"
    by (rule walked_sub[OF wl]; code_simp)
  then have 2: "walked fs_missing_blob ?M ?D" unfolding jd .
  have 3: "''latest'' \<in> set (listdir fs_missing_blob ?D)" by code_simp
  have 4: "lstat fs_missing_blob (os_path_join ?D ''latest'')
           = Some (RegFile (Parsed (manifest_of ''sha256:abc123'')))"
    unfolding jf by code_simp
  note t = get_filenames_lists_regular_files[of fs_fresh_home ?M "''/h''", unfolded p]
  have a: "get_filenames fs_fresh_home ?M = []"
    using t 0 by blast
  have b: "main ''/h'' False fs_fresh_home
       = (None, reset_symlinks fs_fresh_home ''/h/.local/share/ramalama/models/ollama''
                  ''/h/.ollama/models/blobs'')"
    using t 0 by blast
  have c: "os_path_join ?D ''latest'' \<in> set (get_filenames fs_missing_blob ?M)"
    using get_filenames_lists_regular_files[of fs_missing_blob ?M _ ?D "''latest''"] 1 2 3 4
    by blast
  from 0 a b 1 2 3 4[unfolded jf] c[unfolded jf] show ?thesis by (intro conjI)
qed

text \<open>
  C9, as stated, lets the failure propagate. In a home without the manifests directory
  the run ends normally and changes nothing.
\<close>

theorem missing_manifests_root_is_silent:
  "\<not> is_dir fs_fresh_home ''/h/.ollama/models/manifests/registry.ollama.ai''
   \<and> get_filenames fs_fresh_home (path_str (ollama_manifests_dir ''/h'')) = []
   \<and> main ''/h'' False fs_fresh_home = (None, fs_fresh_home, [])"
  by code_simp


end
